theory Spec2Isabelle
  imports Complex_Main "HOL-Library.Word"
begin

section \<open>Data model: numpy arrays, Python indexing, errors\<close>

text \<open>
  The script \<^verbatim>\<open>scripts/scil_compute_pca.py\<close> works on numpy arrays. An array is
  modelled the way numpy stores it: a shape and a buffer of elements in row-major (C)
  order. The element type is left open; what numpy does with the elements depends on
  the dtype of the array, which is a parameter of the model (see \<open>dtype\<close> below).
  Rounding, infinities and not-a-number are outside this model.
\<close>

record 'a ndarray =
  shape :: "nat list"
  data :: "'a list"

text \<open>Every exception and every \<^verbatim>\<open>parser.error\<close> exit of the modelled code.\<close>

datatype error =
    IndexError
  | TypeError
  | ValueError
  | AxisError
  | KeyError
  | ShapeMismatchError
  | InconsistentMaskError
  | MissingMatrixError

definition valid :: "'a ndarray \<Rightarrow> bool" where
  "valid a = (length (data a) = prod_list (shape a))"

text \<open>\<^verbatim>\<open>np.array(rows)\<close> for a literal list of equally long rows.\<close>

definition matrix_of_rows :: "'a list list \<Rightarrow> 'a ndarray" where
  "matrix_of_rows rows =
     \<lparr>shape = [length rows, (case rows of [] \<Rightarrow> 0 | r # _ \<Rightarrow> length r)],
      data = concat rows\<rparr>"

text \<open>\<^verbatim>\<open>a[r, c]\<close> of a two-dimensional array, for \<open>r\<close> and \<open>c\<close> in range.\<close>

definition at2 :: "'a ndarray \<Rightarrow> nat \<Rightarrow> nat \<Rightarrow> 'a" where
  "at2 a r c = data a ! (r * (shape a ! 1) + c)"

text \<open>
  \<^verbatim>\<open>xs[i]\<close> on a Python list: a negative index counts from the end, an index out of
  range raises \<^verbatim>\<open>IndexError\<close>.
\<close>

definition py_index :: "'a list \<Rightarrow> int \<Rightarrow> error + 'a" where
  "py_index xs i =
     (if 0 \<le> i \<and> i < int (length xs) then Inr (xs ! nat i)
      else if i < 0 \<and> - int (length xs) \<le> i then Inr (xs ! nat (int (length xs) + i))
      else Inl IndexError)"

text \<open>
  \<^verbatim>\<open>np.array(xs)\<close> and \<^verbatim>\<open>np.copy(xs)\<close> of a Python list of arrays: the arrays are
  stacked along a new leading axis. Arrays of different shapes do not stack
  (\<^verbatim>\<open>ValueError\<close>: inhomogeneous shape); the empty list gives an array of shape \<open>(0,)\<close>.
\<close>

definition np_array :: "'a ndarray list \<Rightarrow> error + 'a ndarray" where
  "np_array xs =
     (case xs of
        [] \<Rightarrow> Inr \<lparr>shape = [0], data = []\<rparr>
      | x # ys \<Rightarrow>
          if list_all (\<lambda>y. shape y = shape x) ys
          then Inr \<lparr>shape = length xs # shape x, data = concat (map data xs)\<rparr>
          else Inl ValueError)"

text \<open>\<^verbatim>\<open>len(a)\<close>: the length of the leading axis; a 0-dimensional array has none.\<close>

definition np_len :: "'a ndarray \<Rightarrow> error + nat" where
  "np_len a = (case shape a of [] \<Rightarrow> Inl TypeError | n # _ \<Rightarrow> Inr n)"

text \<open>The \<open>k\<close>-th run of \<open>sz\<close> consecutive elements of a buffer.\<close>

definition block :: "nat \<Rightarrow> 'a list \<Rightarrow> nat \<Rightarrow> 'a list" where
  "block sz xs k = take sz (drop (k * sz) xs)"

text \<open>
  \<^verbatim>\<open>a[i]\<close> for \<open>i\<close> within the leading axis: the \<open>i\<close>-th sub-array. In numpy it is a
  view of the buffer of \<open>a\<close>; \<open>set_item\<close> is the write through that view.
\<close>

definition get_item :: "'a ndarray \<Rightarrow> nat \<Rightarrow> 'a ndarray" where
  "get_item a i = \<lparr>shape = tl (shape a), data = block (prod_list (tl (shape a))) (data a) i\<rparr>"

definition set_item :: "'a ndarray \<Rightarrow> nat \<Rightarrow> 'a ndarray \<Rightarrow> 'a ndarray" where
  "set_item a i b =
     (let sz = prod_list (tl (shape a))
      in a\<lparr>data := take (i * sz) (data a) @ data b @ drop (Suc i * sz) (data a)\<rparr>)"

text \<open>\<^verbatim>\<open>a[p(a)] = v\<close>: boolean-mask assignment of one value.\<close>

definition set_where :: "('a \<Rightarrow> bool) \<Rightarrow> 'a \<Rightarrow> 'a ndarray \<Rightarrow> 'a ndarray" where
  "set_where p v a = a\<lparr>data := map (\<lambda>x. if p x then v else x) (data a)\<rparr>"

section \<open>Element types of arrays\<close>

text \<open>
  numpy computes within the dtype of an array: \<^verbatim>\<open>np.add\<close> and \<^verbatim>\<open>np.multiply\<close> of two
  arrays of one dtype return that dtype (on Boolean arrays they are the logical or and
  and, on fixed-width integers they wrap around), and a Python number assigned into an
  array is cast to its dtype. An element is compared with a Python number by value, and
  \<^verbatim>\<open>np.sum\<close> adds the values of a Boolean or narrow integer array as integers. A dtype
  is the record of these operations; \<open>dt_val\<close> is the value of an element as a number.
  All arrays of one run have the same dtype.
\<close>

record ('a, 'b) dtype =
  dt_zero :: "'a"
  dt_one :: "'a"
  dt_add :: "'a \<Rightarrow> 'a \<Rightarrow> 'a"
  dt_mul :: "'a \<Rightarrow> 'a \<Rightarrow> 'a"
  dt_val :: "'a \<Rightarrow> 'b"

text \<open>
  A dtype whose arithmetic is exact on the values that occur: \<open>int\<close> for
  \<^verbatim>\<open>int64\<close> (no sum of the script comes near its bounds), \<open>real\<close> for idealised
  \<^verbatim>\<open>float64\<close>.
\<close>

definition exact :: "('a::semiring_1, 'a) dtype" where
  "exact = \<lparr>dt_zero = 0, dt_one = 1, dt_add = (+), dt_mul = (*), dt_val = (\<lambda>x. x)\<rparr>"

text \<open>The dtype \<^verbatim>\<open>bool\<close>: \<^verbatim>\<open>True + True\<close> is \<^verbatim>\<open>True\<close>.\<close>

definition np_bool :: "(bool, int) dtype" where
  "np_bool = \<lparr>dt_zero = False, dt_one = True, dt_add = (\<or>), dt_mul = (\<and>),
              dt_val = (\<lambda>b. if b then 1 else 0)\<rparr>"

text \<open>The dtype \<^verbatim>\<open>int8\<close>: sums and products wrap around at 8 bits.\<close>

definition np_int8 :: "(8 word, int) dtype" where
  "np_int8 = \<lparr>dt_zero = 0, dt_one = 1, dt_add = (+), dt_mul = (*), dt_val = sint\<rparr>"

text \<open>
  \<^verbatim>\<open>np.add(a, b)\<close> for two arrays of one shape (in \<open>extracting_common_cnx\<close> both are
  sub-arrays of the same stacked array).
\<close>

definition np_add :: "('a, 'b) dtype \<Rightarrow> 'a ndarray \<Rightarrow> 'a ndarray \<Rightarrow> 'a ndarray" where
  "np_add dt a b = \<lparr>shape = shape a, data = map2 (dt_add dt) (data a) (data b)\<rparr>"

text \<open>\<^verbatim>\<open>np.sum(a)\<close>: the sum of the values of all elements.\<close>

definition np_sum :: "('a, 'b::monoid_add) dtype \<Rightarrow> 'a ndarray \<Rightarrow> 'b" where
  "np_sum dt a = sum_list (map (dt_val dt) (data a))"

section \<open>The common-connection mask\<close>

text \<open>
  A dictionary of the script maps a metric name to the Python list of the subjects'
  matrices. Python dictionaries keep insertion order and their keys are distinct, so the
  dictionary is an association list in insertion order; \<^verbatim>\<open>d[list(d.keys())[ind]]\<close> is
  the value of its \<open>ind\<close>-th entry.
\<close>

type_synonym 'a metric_dict = "(string \<times> 'a ndarray list) list"

text \<open>
  \<^verbatim>\<open>for i in range(0, len(met)): met[i][met[i] != 0] = 1\<close>. When \<open>met\<close> has a single
  axis, \<^verbatim>\<open>met[i]\<close> is a scalar and not a view; a scalar has no item assignment, so the
  first pass of the loop raises \<^verbatim>\<open>TypeError\<close>.
\<close>

definition binarize_loop ::
  "('a, 'b::zero) dtype \<Rightarrow> nat \<Rightarrow> 'a ndarray \<Rightarrow> error + 'a ndarray" where
  "binarize_loop dt n met =
     (if 0 < n \<and> length (shape met) < 2 then Inl TypeError
      else Inr (fold (\<lambda>i m. set_item m i
                        (set_where (\<lambda>x. dt_val dt x \<noteq> 0) (dt_one dt) (get_item m i)))
                  [0..<n] met))"

text \<open>
  \<^verbatim>\<open>orig = np.copy(met[0]); mask = [orig]\<close>, then
  \<^verbatim>\<open>for i in range(1, len(met)): orig = np.add(orig, met[i]); mask.append(orig)\<close>.
  The result is the list \<open>mask\<close>.
\<close>

definition add_loop :: "('a, 'b) dtype \<Rightarrow> nat \<Rightarrow> 'a ndarray \<Rightarrow> 'a ndarray list" where
  "add_loop dt n met =
     snd (fold (\<lambda>i (orig, mask). let orig' = np_add dt orig (get_item met i)
                                 in (orig', mask @ [orig']))
            [1..<n] (get_item met 0, [get_item met 0]))"

definition extracting_common_cnx ::
  "('a, 'b::semiring_1) dtype \<Rightarrow> 'a metric_dict \<Rightarrow> int \<Rightarrow> error + 'a ndarray" where
  "extracting_common_cnx dt d ind =
     (case py_index d ind of
        Inl e \<Rightarrow> Inl e
      | Inr (key, mats) \<Rightarrow>
          (case np_array mats of
             Inl e \<Rightarrow> Inl e
           | Inr met0 \<Rightarrow>
               (case np_len met0 of
                  Inl e \<Rightarrow> Inl e
                | Inr n \<Rightarrow>
                    (case binarize_loop dt n met0 of
                       Inl e \<Rightarrow> Inl e
                     | Inr met \<Rightarrow>
                         if n = 0 then Inl IndexError
                         else
                           let mask = add_loop dt n met;
                               mask_f = mask ! (n - 1);
                               mask_f = set_where (\<lambda>x. dt_val dt x \<noteq> of_nat n) (dt_zero dt) mask_f;
                               mask_f = set_where (\<lambda>x. dt_val dt x = of_nat n) (dt_one dt) mask_f
                           in Inr mask_f))))"

text \<open>
  The specification's wording of the mask: binarize every subject's matrix (non-zero to
  1), sum the binarized matrices elementwise across the subjects, and keep (as 1) exactly
  the cells whose sum equals the subject count.
\<close>

definition nz :: "('a, 'b::zero) dtype \<Rightarrow> 'a \<Rightarrow> 'a" where
  "nz dt x = (if dt_val dt x \<noteq> 0 then dt_one dt else dt_zero dt)"

definition binarize :: "('a, 'b::zero) dtype \<Rightarrow> 'a ndarray \<Rightarrow> 'a ndarray" where
  "binarize dt m = m\<lparr>data := map (nz dt) (data m)\<rparr>"

definition spec_common_mask :: "('a, 'b::semiring_1) dtype \<Rightarrow> 'a ndarray list \<Rightarrow> 'a ndarray" where
  "spec_common_mask dt mats =
     \<lparr>shape = shape (hd mats),
      data = map (\<lambda>p. if (\<Sum>m\<leftarrow>map (binarize dt) mats. dt_val dt (data m ! p))
                           = of_nat (length mats)
                       then dt_one dt else dt_zero dt)
               [0..<prod_list (shape (hd mats))]\<rparr>"



section \<open>Elementwise product with broadcasting, masking, zero restoration\<close>

text \<open>
  numpy aligns two shapes at their trailing axes; two lengths are compatible when they
  are equal or one of them is 1. \<open>broadcast_shapes\<close> works on the reversed shapes.
\<close>

fun broadcast_shapes :: "nat list \<Rightarrow> nat list \<Rightarrow> nat list option" where
  "broadcast_shapes [] ys = Some ys"
| "broadcast_shapes (x # xs) [] = Some (x # xs)"
| "broadcast_shapes (x # xs) (y # ys) =
     (if x = y \<or> y = 1 then map_option ((#) x) (broadcast_shapes xs ys)
      else if x = 1 then map_option ((#) y) (broadcast_shapes xs ys)
      else None)"

text \<open>
  The buffer of an array of shape \<open>src\<close> stretched to shape \<open>tgt\<close> (of the same
  rank): an axis of length 1 is repeated.
\<close>

fun broadcast_data :: "nat list \<Rightarrow> nat list \<Rightarrow> 'a list \<Rightarrow> 'a list" where
  "broadcast_data (n # tgt) (m # src) xs =
     (if m = n
      then concat (map (\<lambda>i. broadcast_data tgt src (block (prod_list src) xs i)) [0..<n])
      else concat (replicate n (broadcast_data tgt src xs)))"
| "broadcast_data tgt src xs = xs"

definition broadcast_to :: "nat list \<Rightarrow> 'a ndarray \<Rightarrow> 'a ndarray" where
  "broadcast_to shp a =
     \<lparr>shape = shp,
      data = broadcast_data shp (replicate (length shp - length (shape a)) 1 @ shape a) (data a)\<rparr>"

text \<open>\<^verbatim>\<open>np.multiply(a, b)\<close>; shapes that do not broadcast raise \<^verbatim>\<open>ValueError\<close>.\<close>

definition np_multiply ::
  "('a, 'b) dtype \<Rightarrow> 'a ndarray \<Rightarrow> 'a ndarray \<Rightarrow> error + 'a ndarray" where
  "np_multiply dt a b =
     (case broadcast_shapes (rev (shape a)) (rev (shape b)) of
        None \<Rightarrow> Inl ValueError
      | Some rs \<Rightarrow>
          Inr \<lparr>shape = rev rs,
               data = map2 (dt_mul dt) (data (broadcast_to (rev rs) a))
                        (data (broadcast_to (rev rs) b))\<rparr>)"

text \<open>A loop whose body may raise: the first error ends it.\<close>

fun map_result :: "('a \<Rightarrow> error + 'b) \<Rightarrow> 'a list \<Rightarrow> error + 'b list" where
  "map_result f [] = Inr []"
| "map_result f (x # xs) =
     (case f x of
        Inl e \<Rightarrow> Inl e
      | Inr y \<Rightarrow> (case map_result f xs of Inl e \<Rightarrow> Inl e | Inr ys \<Rightarrow> Inr (y # ys)))"

text \<open>
  \<^verbatim>\<open>for a in d.keys(): for i in range(0, len(d[a])): d[a][i] = np.multiply(d[a][i], mask)\<close>;
  the dictionary is updated in place and returned.
\<close>

definition apply_binary_mask ::
  "('a, 'b) dtype \<Rightarrow> 'a metric_dict \<Rightarrow> 'a ndarray \<Rightarrow> error + 'a metric_dict" where
  "apply_binary_mask dt d bmask =
     map_result (\<lambda>(a, mats).
        case map_result (\<lambda>m. np_multiply dt m bmask) mats of
          Inl e \<Rightarrow> Inl e
        | Inr ms \<Rightarrow> Inr (a, ms)) d"

text \<open>\<^verbatim>\<open>mask = np.copy(orig); mask[mask != 0] = 1; return np.multiply(new, mask)\<close>\<close>

definition restore_zero_values ::
  "('a, 'b::zero) dtype \<Rightarrow> 'a ndarray \<Rightarrow> 'a ndarray \<Rightarrow> error + 'a ndarray" where
  "restore_zero_values dt orig new =
     np_multiply dt new (set_where (\<lambda>x. dt_val dt x \<noteq> 0) (dt_one dt) orig)"

section \<open>The steps of \<open>main\<close>\<close>

text \<open>
  The steps of \<open>main\<close> are embedded from the loading on (line 177). Before it,
  line 172 reads \<^verbatim>\<open>args.input\<close>, an attribute that the argument parser of the script
  does not define (the positional arguments are \<^verbatim>\<open>in_folder\<close> and \<^verbatim>\<open>output\<close>); that
  line is not part of the steps below.

  Loading (lines 177 to 183). The path of a stored matrix is
  \<^verbatim>\<open>f'{args.in_folder}/{a}/Compute_Connectivity/{m}.npy'\<close>.
\<close>

definition matrix_path :: "string \<Rightarrow> string \<Rightarrow> string \<Rightarrow> string" where
  "matrix_path in_folder a m = in_folder @ ''/'' @ a @ ''/Compute_Connectivity/'' @ m @ ''.npy''"

text \<open>
  Modelled from the spec: \<^verbatim>\<open>load_matrix_in_any_format\<close> of \<^verbatim>\<open>scilpy.io.utils\<close> is not
  among the sources. The specification's matrix store retrieves a named array and
  fails with \<open>MissingMatrixError\<close> when the pair has no stored matrix; the store is a
  partial map from paths to arrays.
\<close>

definition load_matrix_in_any_format ::
  "(string \<rightharpoonup> 'a ndarray) \<Rightarrow> string \<Rightarrow> error + 'a ndarray" where
  "load_matrix_in_any_format store path =
     (case store path of None \<Rightarrow> Inl MissingMatrixError | Some m \<Rightarrow> Inr m)"

text \<open>\<^verbatim>\<open>d[k] = v\<close>: an existing key keeps its place, a new key goes last.\<close>

definition dict_set :: "('k \<times> 'v) list \<Rightarrow> 'k \<Rightarrow> 'v \<Rightarrow> ('k \<times> 'v) list" where
  "dict_set d k v =
     (if k \<in> set (map fst d) then map (\<lambda>(k', v'). if k' = k then (k', v) else (k', v')) d
      else d @ [(k, v)])"

definition dict_get :: "('k \<times> 'v) list \<Rightarrow> 'k \<Rightarrow> error + 'v" where
  "dict_get d k = (case map_of d k of None \<Rightarrow> Inl KeyError | Some v \<Rightarrow> Inr v)"

text \<open>
  \<^verbatim>\<open>d = {m: [load_matrix_in_any_format(path(a, m)) for a in subjects] for m in args.metrics}\<close>;
  \<open>loader\<close> is what \<^verbatim>\<open>load_matrix_in_any_format\<close> does with a path.
\<close>

fun load_metrics ::
  "(string \<Rightarrow> error + 'a ndarray) \<Rightarrow> string \<Rightarrow> string list \<Rightarrow> string list \<Rightarrow> 'a metric_dict
   \<Rightarrow> error + 'a metric_dict" where
  "load_metrics loader in_folder subjects [] d = Inr d"
| "load_metrics loader in_folder subjects (m # ms) d =
     (case map_result (\<lambda>a. loader (matrix_path in_folder a m)) subjects of
        Inl e \<Rightarrow> Inl e
      | Inr mats \<Rightarrow> load_metrics loader in_folder subjects ms (dict_set d m mats))"

definition main_load ::
  "(string \<Rightarrow> error + 'a ndarray) \<Rightarrow> string \<Rightarrow> string list \<Rightarrow> string list
   \<Rightarrow> error + 'a metric_dict" where
  "main_load loader in_folder subjects metrics = load_metrics loader in_folder subjects metrics []"

text \<open>\<^verbatim>\<open>mat_shape = d[f'{args.metrics[0]}'][0].shape\<close>\<close>

definition main_mat_shape :: "string list \<Rightarrow> 'a metric_dict \<Rightarrow> error + nat list" where
  "main_mat_shape metrics d =
     (case py_index metrics 0 of
        Inl e \<Rightarrow> Inl e
      | Inr m \<Rightarrow>
          (case dict_get d m of
             Inl e \<Rightarrow> Inl e
           | Inr mats \<Rightarrow> (case py_index mats 0 of Inl e \<Rightarrow> Inl e | Inr a \<Rightarrow> Inr (shape a))))"

text \<open>
  The masking step (lines 185 to 198); \<open>common\<close> is \<^verbatim>\<open>args.common == 'true'\<close>. Each
  \<^verbatim>\<open>parser.error\<close> ends the run: the first is \<open>ShapeMismatchError\<close>, the second
  \<open>InconsistentMaskError\<close>.
\<close>

definition main_mask_step ::
  "('a, 'b::semiring_1) dtype \<Rightarrow> bool \<Rightarrow> nat list \<Rightarrow> 'a metric_dict \<Rightarrow> error + 'a metric_dict" where
  "main_mask_step dt common mat_shape d =
     (if common then
        (case extracting_common_cnx dt d 0 of
           Inl e \<Rightarrow> Inl e
         | Inr m1 \<Rightarrow>
             (case extracting_common_cnx dt d 1 of
                Inl e \<Rightarrow> Inl e
              | Inr m2 \<Rightarrow>
                  if shape m1 \<noteq> mat_shape then Inl ShapeMismatchError
                  else if np_sum dt m1 \<noteq> np_sum dt m2 then Inl InconsistentMaskError
                  else apply_binary_mask dt d m1))
      else Inr d)"

section \<open>The specification's concrete scenario\<close>

text \<open>
  Two subjects A and B, two metrics: \<open>fa\<close> is \<open>[[1,0],[2,3]]\<close> for A and
  \<open>[[5,0],[6,0]]\<close> for B; \<open>md\<close> is \<open>[[1,0],[0,4]]\<close> for A and \<open>[[1,0],[7,0]]\<close> for B.
\<close>

definition scenario_d :: "int metric_dict" where
  "scenario_d =
     [(''fa'', [matrix_of_rows [[1, 0], [2, 3]], matrix_of_rows [[5, 0], [6, 0]]]),
      (''md'', [matrix_of_rows [[1, 0], [0, 4]], matrix_of_rows [[1, 0], [7, 0]]])]"

section \<open>Measures and further examples\<close>

text \<open>
  One metric, two subjects, Boolean matrices \<^verbatim>\<open>[[True, False]]\<close>: the first cell is
  non-zero for both subjects.
\<close>

definition bool_d :: "bool metric_dict" where
  "bool_d = [(''fa'', [matrix_of_rows [[True, False]], matrix_of_rows [[True, False]]])]"

text \<open>The number of retained (1-valued) cells of a mask.\<close>

definition count_ones :: "'a::one ndarray \<Rightarrow> nat" where
  "count_ones m = length (filter (\<lambda>x. x = 1) (data m))"


text \<open>
  A store with one subject whose \<open>fa\<close> and \<open>md\<close> matrices are non-zero at different
  cells, and the dictionary loaded from it.
\<close>

definition skew_store :: "string \<rightharpoonup> int ndarray" where
  "skew_store = map_of
     [(''in/s1/Compute_Connectivity/fa.npy'', matrix_of_rows [[3, 0]]),
      (''in/s1/Compute_Connectivity/md.npy'', matrix_of_rows [[0, 4]])]"

definition skew_d :: "int metric_dict" where
  "skew_d = [(''fa'', [matrix_of_rows [[3, 0]]]), (''md'', [matrix_of_rows [[0, 4]]])]"

text \<open>A matrix whose every cell is 0.\<close>

definition all_zero :: "'a::zero ndarray \<Rightarrow> bool" where
  "all_zero m = list_all (\<lambda>x. x = 0) (data m)"

text \<open>Three metrics, one subject; the third metric's matrix is all-zero.\<close>

definition zero_rd_d :: "int metric_dict" where
  "zero_rd_d =
     [(''fa'', [matrix_of_rows [[2, 0], [0, 5]]]),
      (''md'', [matrix_of_rows [[3, 0], [0, 7]]]),
      (''rd'', [matrix_of_rows [[0, 0], [0, 0]]])]"

text \<open>
  The keys of a dictionary built by inserting \<open>ms\<close> in turn, starting from the keys
  \<open>ks\<close>: a repeated key keeps its first place.
\<close>

fun key_order :: "'k list \<Rightarrow> 'k list \<Rightarrow> 'k list" where
  "key_order ks [] = ks"
| "key_order ks (m # ms) = key_order (if m \<in> set ks then ks else ks @ [m]) ms"

text \<open>A store whose \<open>fa\<close> matrix is 1 by 1 and whose \<open>md\<close> matrix is 1 by 2.\<close>

definition ragged_store :: "string \<rightharpoonup> int ndarray" where
  "ragged_store = map_of
     [(''in/s1/Compute_Connectivity/fa.npy'', matrix_of_rows [[3]]),
      (''in/s1/Compute_Connectivity/md.npy'', matrix_of_rows [[0, 4]])]"

section \<open>The feature table and the way back\<close>

text \<open>
  \<^verbatim>\<open>np.rollaxis(a, axis=1, start=3)\<close>: for an array of at least three axes, axis 1 is
  moved behind axis 2 (\<^verbatim>\<open>a.transpose([0, 2, 1, ...])\<close>); an array of fewer axes
  raises \<^verbatim>\<open>AxisError\<close>. The buffer is written in the row-major order of the result.
\<close>

definition np_rollaxis_1_3 :: "'a ndarray \<Rightarrow> error + 'a ndarray" where
  "np_rollaxis_1_3 a =
     (case shape a of
        s # r # c # rest \<Rightarrow>
          Inr \<lparr>shape = s # c # r # rest,
               data = concat (map (\<lambda>i. concat (map (\<lambda>k. concat (map (\<lambda>j.
                        block (prod_list rest) (data a) ((i * r + j) * c + k))
                      [0..<r])) [0..<c])) [0..<s])\<rparr>
      | _ \<Rightarrow> Inl AxisError)"

text \<open>\<^verbatim>\<open>a.reshape(shp)\<close>: the sizes must agree.\<close>

definition np_reshape :: "'a ndarray \<Rightarrow> nat list \<Rightarrow> error + 'a ndarray" where
  "np_reshape a shp =
     (if prod_list shp = length (data a) then Inr \<lparr>shape = shp, data = data a\<rparr>
      else Inl ValueError)"

text \<open>
  The body of the loop of \<open>creating_pca_input\<close> for one metric:
  \<^verbatim>\<open>mat = np.rollaxis(np.array(d[a]), axis=1, start=3)\<close>,
  \<^verbatim>\<open>matrix_shape = mat.shape[1:3]\<close>, \<^verbatim>\<open>n_group = mat.shape[0]\<close>,
  \<^verbatim>\<open>mat = mat.reshape((np.prod(matrix_shape) * n_group, 1))\<close>.
\<close>

definition pca_column :: "'a ndarray list \<Rightarrow> error + 'a ndarray" where
  "pca_column mats =
     (case np_array mats of
        Inl e \<Rightarrow> Inl e
      | Inr arr \<Rightarrow>
          (case np_rollaxis_1_3 arr of
             Inl e \<Rightarrow> Inl e
           | Inr mat \<Rightarrow>
               let matrix_shape = take 2 (drop 1 (shape mat));
                   n_group = shape mat ! 0
               in np_reshape mat [prod_list matrix_shape * n_group, 1]))"

text \<open>
  \<^verbatim>\<open>np.hstack(cols)\<close> for two-dimensional arrays (the columns built above): they are
  joined along axis 1 and must agree in their number of rows; an empty list raises
  \<^verbatim>\<open>ValueError\<close>.
\<close>

definition np_hstack :: "'a ndarray list \<Rightarrow> error + 'a ndarray" where
  "np_hstack arrs =
     (case arrs of
        [] \<Rightarrow> Inl ValueError
      | a # _ \<Rightarrow>
          if list_all (\<lambda>b. length (shape b) = 2 \<and> shape b ! 0 = shape a ! 0) arrs
          then Inr \<lparr>shape = [shape a ! 0, sum_list (map (\<lambda>b. shape b ! 1) arrs)],
                    data = concat (map (\<lambda>n. concat (map (\<lambda>b. block (shape b ! 1) (data b) n) arrs))
                             [0..<shape a ! 0])\<rparr>
          else Inl ValueError)"

text \<open>
  \<open>creating_pca_input\<close> replaces every value of the dictionary by its column and
  returns the columns joined; the updated dictionary is returned with the table.
\<close>

definition creating_pca_input ::
  "'a metric_dict \<Rightarrow> error + ((string \<times> 'a ndarray) list \<times> 'a ndarray)" where
  "creating_pca_input d =
     (case map_result (\<lambda>(a, mats). pca_column mats) d of
        Inl e \<Rightarrow> Inl e
      | Inr cols \<Rightarrow>
          (case np_hstack cols of
             Inl e \<Rightarrow> Inl e
           | Inr out \<Rightarrow> Inr (zip (map fst d) cols, out)))"

text \<open>\<^verbatim>\<open>a.swapaxes(0, 1)\<close>, with the buffer in the row-major order of the result.\<close>

definition np_swapaxes_0_1 :: "'a ndarray \<Rightarrow> error + 'a ndarray" where
  "np_swapaxes_0_1 a =
     (case shape a of
        n # m # rest \<Rightarrow>
          Inr \<lparr>shape = m # n # rest,
               data = concat (map (\<lambda>j. concat (map (\<lambda>i.
                        block (prod_list rest) (data a) (i * m + j)) [0..<n])) [0..<m])\<rparr>
      | _ \<Rightarrow> Inl AxisError)"

text \<open>
  Lines 269 and 270 of \<open>main\<close>, after the decomposition has turned the table \<open>x\<close> into
  \<open>out\<close>: \<^verbatim>\<open>out = restore_zero_values(x, out)\<close>, then
  \<^verbatim>\<open>out = out.swapaxes(0, 1).reshape(len(args.metrics), len(subjects), mat_shape[0], mat_shape[1])\<close>.
\<close>

definition main_restore_reshape ::
  "('a, 'b::zero) dtype \<Rightarrow> 'a ndarray \<Rightarrow> 'a ndarray \<Rightarrow> nat \<Rightarrow> nat \<Rightarrow> nat list
   \<Rightarrow> error + 'a ndarray" where
  "main_restore_reshape dt x out n_metrics n_subjects mat_shape =
     (case restore_zero_values dt x out of
        Inl e \<Rightarrow> Inl e
      | Inr out1 \<Rightarrow>
          (case np_swapaxes_0_1 out1 of
             Inl e \<Rightarrow> Inl e
           | Inr out2 \<Rightarrow>
               (case mat_shape of
                  r # c # _ \<Rightarrow> np_reshape out2 [n_metrics, n_subjects, r, c]
                | _ \<Rightarrow> Inl IndexError)))"

text \<open>
  The round trip of the specification: the table of \<open>creating_pca_input\<close>, the identity
  in place of the decomposition (as many components as metrics), then lines 269 and 270.
  The matrix of component \<open>i\<close> and subject \<open>s\<close> is \<^verbatim>\<open>out[i, s, :, :]\<close>.
\<close>

definition identity_round_trip ::
  "('a, 'b::zero) dtype \<Rightarrow> 'a metric_dict \<Rightarrow> nat \<Rightarrow> nat list \<Rightarrow> error + 'a ndarray" where
  "identity_round_trip dt d n_subjects mat_shape =
     (case creating_pca_input d of
        Inl e \<Rightarrow> Inl e
      | Inr (d', x) \<Rightarrow> main_restore_reshape dt x x (length d) n_subjects mat_shape)"

definition component_matrix :: "'a ndarray \<Rightarrow> nat \<Rightarrow> nat \<Rightarrow> 'a ndarray" where
  "component_matrix out i s = get_item (get_item out i) s"

text \<open>
  Saving (lines 272 to 277): \<^verbatim>\<open>nb_pc = eigenvalues[eigenvalues >= 1]\<close>, then one call
  of \<^verbatim>\<open>save_matrix_in_any_format\<close> for every \<open>i\<close> below \<^verbatim>\<open>len(nb_pc)\<close> and every
  subject, with the path \<^verbatim>\<open>f'{in_folder}/{subjects[s]}/Compute_Connectivity/PC{i+1}.npy'\<close>
  and the array \<^verbatim>\<open>out[i, s, :, :]\<close>. \<open>saved_indices\<close> lists the pairs \<open>(i, s)\<close> of the
  calls in order, \<open>main_save_calls\<close> their arguments.
\<close>

fun str_nat :: "nat \<Rightarrow> string" where
  "str_nat n =
     (if n < 10 then [char_of (48 + n)] else str_nat (n div 10) @ [char_of (48 + n mod 10)])"

definition pc_path :: "string \<Rightarrow> string \<Rightarrow> nat \<Rightarrow> string" where
  "pc_path in_folder subject i =
     in_folder @ ''/'' @ subject @ ''/Compute_Connectivity/PC'' @ str_nat (i + 1) @ ''.npy''"

definition significant :: "real list \<Rightarrow> real list" where
  "significant eigenvalues = filter (\<lambda>e. 1 \<le> e) eigenvalues"

definition saved_indices :: "real list \<Rightarrow> nat \<Rightarrow> (nat \<times> nat) list" where
  "saved_indices eigenvalues n_subjects =
     concat (map (\<lambda>i. map (\<lambda>s. (i, s)) [0..<n_subjects]) [0..<length (significant eigenvalues)])"

definition main_save_calls ::
  "string \<Rightarrow> string list \<Rightarrow> real list \<Rightarrow> 'a ndarray \<Rightarrow> (string \<times> 'a ndarray) list" where
  "main_save_calls in_folder subjects eigenvalues out =
     map (\<lambda>(i, s). (pc_path in_folder (subjects ! s) i, component_matrix out i s))
       (saved_indices eigenvalues (length subjects))"

text \<open>The column of one metric: subject by subject, each matrix column by column.\<close>

definition column_major :: "nat \<Rightarrow> nat \<Rightarrow> 'a ndarray list \<Rightarrow> 'a list" where
  "column_major R C mats =
     concat (map (\<lambda>m. concat (map (\<lambda>c. map (\<lambda>r. data m ! (r * C + c)) [0..<R]) [0..<C])) mats)"

section \<open>The mask extraction on a store\<close>

text \<open>
  To say that \<open>extracting_common_cnx\<close> leaves its input alone, the arrays are put in
  a store: an array object is a reference (an index into the store), the dictionary
  holds references, a new array is allocated at the end of the store, and an in-place
  assignment updates the store at the reference of the array written to. \<^verbatim>\<open>np.copy\<close>,
  \<^verbatim>\<open>np.add\<close> allocate; \<^verbatim>\<open>met[i][...] = 1\<close> writes through the view \<^verbatim>\<open>met[i]\<close>
  into \<open>met\<close>; \<^verbatim>\<open>mask_f[...] = v\<close> writes into \<open>mask_f\<close>. The store is returned
  on every path, also when the call raises.
\<close>

type_synonym ref = nat
type_synonym 'a heap = "'a ndarray list"
type_synonym ref_dict = "(string \<times> ref list) list"

definition alloc :: "'a ndarray \<Rightarrow> 'a heap \<Rightarrow> ref \<times> 'a heap" where
  "alloc a h = (length h, h @ [a])"

text \<open>The dictionary of arrays that a dictionary of references denotes.\<close>

definition deref_dict :: "'a heap \<Rightarrow> ref_dict \<Rightarrow> 'a metric_dict" where
  "deref_dict h d = map (\<lambda>(key, refs). (key, map ((!) h) refs)) d"

text \<open>
  The first loop, writing into the array at \<open>m\<close>; when it raises, nothing has been
  written.
\<close>

definition binarize_loop_h ::
  "('a, 'b::zero) dtype \<Rightarrow> nat \<Rightarrow> ref \<Rightarrow> 'a heap \<Rightarrow> error + 'a heap" where
  "binarize_loop_h dt n m h =
     (if 0 < n \<and> length (shape (h ! m)) < 2 then Inl TypeError
      else Inr (fold (\<lambda>i h. h[m := set_item (h ! m) i
                        (set_where (\<lambda>x. dt_val dt x \<noteq> 0) (dt_one dt) (get_item (h ! m) i))])
                  [0..<n] h))"

text \<open>The second loop; \<open>mask\<close> is the Python list of the references appended.\<close>

definition add_step ::
  "('a, 'b) dtype \<Rightarrow> ref \<Rightarrow> nat \<Rightarrow> ref \<times> ref list \<times> 'a heap \<Rightarrow> ref \<times> ref list \<times> 'a heap" where
  "add_step dt m i = (\<lambda>(orig, mask, h).
     let (orig', h') = alloc (np_add dt (h ! orig) (get_item (h ! m) i)) h
     in (orig', mask @ [orig'], h'))"

definition add_loop_h ::
  "('a, 'b) dtype \<Rightarrow> nat \<Rightarrow> ref \<Rightarrow> 'a heap \<Rightarrow> ref list \<times> 'a heap" where
  "add_loop_h dt n m h =
     (let (orig0, h0) = alloc (get_item (h ! m) 0) h;
          (orig, mask, h') = fold (add_step dt m) [1..<n] (orig0, [orig0], h0)
      in (mask, h'))"

definition extracting_common_cnx_h ::
  "('a, 'b::semiring_1) dtype \<Rightarrow> 'a heap \<Rightarrow> ref_dict \<Rightarrow> int \<Rightarrow> 'a heap \<times> (error + ref)" where
  "extracting_common_cnx_h dt h d ind =
     (case py_index d ind of
        Inl e \<Rightarrow> (h, Inl e)
      | Inr (key, refs) \<Rightarrow>
          (case np_array (map ((!) h) refs) of
             Inl e \<Rightarrow> (h, Inl e)
           | Inr met0 \<Rightarrow>
               let (met, h1) = alloc met0 h
               in (case np_len met0 of
                     Inl e \<Rightarrow> (h1, Inl e)
                   | Inr n \<Rightarrow>
                       (case binarize_loop_h dt n met h1 of
                          Inl e \<Rightarrow> (h1, Inl e)
                        | Inr h2 \<Rightarrow>
                            if n = 0 then (h2, Inl IndexError)
                            else
                              let (mask, h3) = add_loop_h dt n met h2;
                                  mask_f = mask ! (n - 1);
                                  h4 = h3[mask_f := set_where (\<lambda>x. dt_val dt x \<noteq> of_nat n)
                                                      (dt_zero dt) (h3 ! mask_f)];
                                  h5 = h4[mask_f := set_where (\<lambda>x. dt_val dt x = of_nat n)
                                                      (dt_one dt) (h4 ! mask_f)]
                              in (h5, Inr mask_f)))))"

text \<open>The scenario's matrices in a store, and the dictionary referring to them.\<close>

definition ex_heap :: "int heap" where
  "ex_heap = [matrix_of_rows [[1, 0], [2, 3]], matrix_of_rows [[5, 0], [6, 0]],
              matrix_of_rows [[1, 0], [0, 4]], matrix_of_rows [[1, 0], [7, 0]]]"
definition ex_refs :: ref_dict where "ex_refs = [(''fa'', [0, 1]), (''md'', [2, 3])]"

section \<open>Helper definitions for the proofs\<close>

text \<open>The running sum of the second loop of \<open>extracting_common_cnx\<close> after \<open>k\<close> subjects.\<close>

definition acc_upto :: "('a, 'b) dtype \<Rightarrow> 'a ndarray \<Rightarrow> nat \<Rightarrow> 'a ndarray" where
  "acc_upto dt met k = foldl (np_add dt) (get_item met 0) (map (get_item met) [1..<k])"

section \<open>The exact dtype\<close>

text \<open>
  The statements below that depend on the arithmetic of the elements are made for the
  dtype \<open>exact\<close>; the statements about the store hold for every dtype.
\<close>

lemma exact_simps [simp]:
  "dt_zero exact = 0" "dt_one exact = 1" "dt_add exact = (+)" "dt_mul exact = (*)"
  "dt_val exact x = x"
  by (simp_all add: exact_def)

lemma map_val_exact [simp]: "map (dt_val exact) xs = xs"
  by (induction xs) simp_all

text \<open>In \<^verbatim>\<open>int8\<close>, 127 + 1 is -128; in \<^verbatim>\<open>bool\<close>, the sum of two ones is one.\<close>

lemma np_add_int8_wraps:
  "map (dt_val np_int8) (data (np_add np_int8 \<lparr>shape = [1], data = [127]\<rparr>
                                 \<lparr>shape = [1], data = [1]\<rparr>)) = [-128]"
  by (simp add: np_add_def np_int8_def)

lemma np_add_bool_saturates:
  "np_add np_bool \<lparr>shape = [1], data = [True]\<rparr> \<lparr>shape = [1], data = [True]\<rparr>
   = \<lparr>shape = [1], data = [True]\<rparr>"
  by (simp add: np_add_def np_bool_def)

section \<open>Lemmas on the loops of \<open>extracting_common_cnx\<close>\<close>

lemma set_where_nz: "set_where (\<lambda>x. x \<noteq> 0) 1 a = a\<lparr>data := map (nz exact) (data a)\<rparr>"
  by (simp add: set_where_def nz_def)

lemma binarize_step:
  assumes "Suc i * prod_list shp \<le> length xs"
  shows "set_item \<lparr>shape = n # shp, data = map (nz exact) (take (i * prod_list shp) xs) @ drop (i * prod_list shp) xs\<rparr> i
           (set_where (\<lambda>x. x \<noteq> 0) 1 (get_item \<lparr>shape = n # shp, data = map (nz exact) (take (i * prod_list shp) xs) @ drop (i * prod_list shp) xs\<rparr> i))
         = \<lparr>shape = n # shp, data = map (nz exact) (take (Suc i * prod_list shp) xs) @ drop (Suc i * prod_list shp) xs\<rparr>"
proof -
  define sz where "sz = prod_list shp"
  define ys where "ys = map (nz exact) (take (i * sz) xs) @ drop (i * sz) xs"
  have le: "i * sz \<le> length xs" and le2: "i * sz + sz \<le> length xs"
    using assms by (simp_all add: sz_def)
  have len: "length (map (nz exact) (take (i * sz) xs)) = i * sz"
    using le by simp
  have t: "take (Suc i * sz) xs = take (i * sz) xs @ take sz (drop (i * sz) xs)"
    using take_add[of "i * sz" sz xs] by (simp only: mult_Suc add.commute)
  have d: "drop (Suc i * sz) xs = drop sz (drop (i * sz) xs)"
    by (simp only: drop_drop mult_Suc)
  have p1: "take (i * sz) ys = map (nz exact) (take (i * sz) xs)"
    unfolding ys_def using len by (simp only: take_append take_all order_refl diff_self_eq_0 take0 append_Nil2)
  have p2: "drop (i * sz) ys = drop (i * sz) xs"
    unfolding ys_def using len by (simp only: drop_append drop_all order_refl diff_self_eq_0 drop0 append_Nil)
  have p3: "drop (Suc i * sz) ys = drop sz (drop (i * sz) xs)"
    using p2 by (simp only: mult_Suc drop_drop[symmetric])
  have "set_item \<lparr>shape = n # shp, data = ys\<rparr> i
           (set_where (\<lambda>x. x \<noteq> 0) 1 (get_item \<lparr>shape = n # shp, data = ys\<rparr> i))
        = \<lparr>shape = n # shp, data = take (i * sz) ys @ map (nz exact) (take sz (drop (i * sz) ys)) @ drop (Suc i * sz) ys\<rparr>"
    by (simp add: set_item_def get_item_def set_where_nz block_def sz_def Let_def)
  also have "\<dots> = \<lparr>shape = n # shp, data = map (nz exact) (take (Suc i * sz) xs) @ drop (Suc i * sz) xs\<rparr>"
    by (simp only: p1 p2 p3 t d map_append append_assoc)
  finally show ?thesis unfolding ys_def sz_def .
qed


lemma binarize_loop_prefix:
  "k * prod_list shp \<le> length xs \<Longrightarrow>
   fold (\<lambda>i m. set_item m i (set_where (\<lambda>x. x \<noteq> 0) 1 (get_item m i))) [0..<k]
        \<lparr>shape = n # shp, data = xs\<rparr>
   = \<lparr>shape = n # shp, data = map (nz exact) (take (k * prod_list shp) xs) @ drop (k * prod_list shp) xs\<rparr>"
proof (induction k)
  case 0
  then show ?case by simp
next
  case (Suc k)
  then have le: "k * prod_list shp \<le> length xs" by simp
  have "fold (\<lambda>i m. set_item m i (set_where (\<lambda>x. x \<noteq> 0) 1 (get_item m i))) [0..<Suc k]
        \<lparr>shape = n # shp, data = xs\<rparr>
      = (\<lambda>m. set_item m k (set_where (\<lambda>x. x \<noteq> 0) 1 (get_item m k)))
          (fold (\<lambda>i m. set_item m i (set_where (\<lambda>x. x \<noteq> 0) 1 (get_item m i))) [0..<k]
             \<lparr>shape = n # shp, data = xs\<rparr>)"
    by simp
  also have "\<dots> = \<lparr>shape = n # shp, data = map (nz exact) (take (Suc k * prod_list shp) xs) @ drop (Suc k * prod_list shp) xs\<rparr>"
    unfolding Suc.IH[OF le] using binarize_step[OF Suc.prems] .
  finally show ?case .
qed

lemma binarize_loop_all:
  "length xs = n * prod_list shp \<Longrightarrow> shp \<noteq> [] \<Longrightarrow>
   binarize_loop exact n \<lparr>shape = n # shp, data = xs\<rparr>
   = Inr \<lparr>shape = n # shp, data = map (nz exact) xs\<rparr>"
  by (cases shp) (simp_all add: binarize_loop_def binarize_loop_prefix)




lemma add_loop_fold:
  "1 \<le> n \<Longrightarrow>
   fold (\<lambda>i (orig, mask). let orig' = np_add dt orig (get_item met i) in (orig', mask @ [orig']))
        [1..<n] (get_item met 0, [get_item met 0])
   = (acc_upto dt met n, map (acc_upto dt met) [1..<Suc n])"
proof (induction n)
  case 0
  then show ?case by simp
next
  case (Suc n)
  show ?case
  proof (cases "n = 0")
    case True
    then show ?thesis by (simp add: acc_upto_def)
  next
    case False
    then have "1 \<le> n" by simp
    from Suc.IH[OF this] \<open>1 \<le> n\<close> show ?thesis
      by (simp add: acc_upto_def Let_def)
  qed
qed

lemma add_loop_last: "1 \<le> n \<Longrightarrow> add_loop dt n met ! (n - 1) = acc_upto dt met n"
proof -
  assume n: "1 \<le> n"
  have "map (acc_upto dt met) [1..<Suc n] ! (n - 1) = acc_upto dt met ([1..<Suc n] ! (n - 1))"
    using n by (intro nth_map) simp
  also have "[1..<Suc n] ! (n - 1) = n"
    using n by (simp del: upt_Suc)
  finally show ?thesis
    using n by (simp only: add_loop_def add_loop_fold snd_conv)
qed

lemma foldl_np_add_shape: "shape (foldl (np_add dt) a bs) = shape a"
  by (induction bs arbitrary: a) (simp_all add: np_add_def)

lemma foldl_np_add_data:
  fixes a :: "'a::semiring_1 ndarray"
  shows "length (data a) = L \<Longrightarrow> \<forall>b\<in>set bs. length (data b) = L \<Longrightarrow>
   data (foldl (np_add exact) a bs) = map (\<lambda>p. data a ! p + (\<Sum>b\<leftarrow>bs. data b ! p)) [0..<L]"
proof (induction bs arbitrary: a)
  case Nil
  then show ?case using map_nth[of "data a"] by simp
next
  case (Cons b bs)
  have l: "length (data (np_add exact a b)) = L"
    using Cons.prems by (simp add: np_add_def)
  have "data (foldl (np_add exact) (np_add exact a b) bs)
        = map (\<lambda>p. data (np_add exact a b) ! p + (\<Sum>b\<leftarrow>bs. data b ! p)) [0..<L]"
    using Cons.IH[OF l] Cons.prems by simp
  also have "\<dots> = map (\<lambda>p. data a ! p + (\<Sum>b\<leftarrow>b # bs. data b ! p)) [0..<L]"
    using Cons.prems by (auto simp: np_add_def add.assoc)
  finally show ?case by simp
qed




lemma block_concat:
  "\<forall>x\<in>set xss. length x = sz \<Longrightarrow> i < length xss \<Longrightarrow> block sz (concat xss) i = xss ! i"
proof (induction xss arbitrary: i)
  case Nil then show ?case by simp
next
  case (Cons a xss)
  show ?case
  proof (cases i)
    case 0 with Cons.prems show ?thesis by (simp add: block_def)
  next
    case (Suc j)
    with Cons have "block sz (concat xss) j = xss ! j" by simp
    with Suc Cons.prems show ?thesis by (simp add: block_def)
  qed
qed

lemma length_concat_uniform:
  "\<forall>x\<in>set xss. length x = sz \<Longrightarrow> length (concat xss) = length xss * sz"
  by (induction xss) auto

lemma np_array_same_shape:
  "mats \<noteq> [] \<Longrightarrow> \<forall>m\<in>set mats. shape m = shp \<Longrightarrow>
   np_array mats = Inr \<lparr>shape = length mats # shp, data = concat (map data mats)\<rparr>"
  by (cases mats) (auto simp: np_array_def list_all_iff)

text \<open>The stacked and binarized array, and its sub-arrays.\<close>

lemma get_item_stacked:
  assumes "\<forall>m\<in>set mats. length (data m) = prod_list shp" and "i < length mats"
  shows "get_item \<lparr>shape = n # shp, data = map (nz exact) (concat (map data mats))\<rparr> i
         = \<lparr>shape = shp, data = map (nz exact) (data (mats ! i))\<rparr>"
proof -
  have "map (nz exact) (concat (map data mats)) = concat (map (map (nz exact) \<circ> data) mats)"
    by (simp add: map_concat)
  moreover have "block (prod_list shp) (concat (map (map (nz exact) \<circ> data) mats)) i
                 = map (map (nz exact) \<circ> data) mats ! i"
    using assms by (intro block_concat) auto
  ultimately show ?thesis
    using assms(2) by (simp add: get_item_def)
qed

lemma acc_upto_stacked:
  fixes mats :: "'a::semiring_1 ndarray list"
  assumes len: "\<forall>m\<in>set mats. length (data m) = prod_list shp" and ne: "mats \<noteq> []"
  shows "acc_upto exact \<lparr>shape = n # shp, data = map (nz exact) (concat (map data mats))\<rparr> (length mats)
         = \<lparr>shape = shp,
            data = map (\<lambda>p. \<Sum>m\<leftarrow>mats. nz exact (data m ! p)) [0..<prod_list shp]\<rparr>"
proof -
  define met where "met = \<lparr>shape = n # shp, data = map (nz exact) (concat (map data mats))\<rparr>"
  define bs where "bs = map (\<lambda>m. \<lparr>shape = shp, data = map (nz exact) (data m)\<rparr>) mats"
  have g: "get_item met i = bs ! i" if "i < length mats" for i
    using get_item_stacked[OF len that, of n] that by (simp add: met_def bs_def)
  have bl: "\<forall>b\<in>set bs. length (data b) = prod_list shp"
    using len by (auto simp: bs_def)
  have lbs: "length bs = length mats" by (simp add: bs_def)
  have bne: "bs \<noteq> []" using ne by (simp add: bs_def)
  have "map (get_item met) [1..<length mats] = map ((!) bs) [1..<length bs]"
    using g by (simp add: lbs)
  also have "\<dots> = tl bs"
  proof (cases bs)
    case Nil
    then show ?thesis by simp
  next
    case (Cons b bs')
    have "map ((!) (b # bs')) [1..<Suc (length bs')] = map ((!) (b # bs')) (map Suc [0..<length bs'])"
      by (simp only: map_Suc_upt One_nat_def)
    also have "\<dots> = map ((!) bs') [0..<length bs']"
      by (simp add: comp_def del: upt_Suc)
    also have "\<dots> = bs'" by (rule map_nth)
    finally show ?thesis using Cons by (simp del: upt_Suc)
  qed
  finally have tl: "map (get_item met) [1..<length mats] = tl bs" .
  have hd: "get_item met 0 = hd bs"
    using g[of 0] ne bne by (simp add: hd_conv_nth)
  have a: "acc_upto exact met (length mats) = foldl (np_add exact) (hd bs) (tl bs)"
    unfolding acc_upto_def by (simp only: tl hd)
  have sh: "shape (foldl (np_add exact) (hd bs) (tl bs)) = shp"
    using bne ne by (simp add: foldl_np_add_shape bs_def hd_map)
  have "data (foldl (np_add exact) (hd bs) (tl bs))
        = map (\<lambda>p. data (hd bs) ! p + (\<Sum>b\<leftarrow>tl bs. data b ! p)) [0..<prod_list shp]"
    using bl bne by (intro foldl_np_add_data) (auto dest: list.set_sel(2))
  also have "\<dots> = map (\<lambda>p. \<Sum>b\<leftarrow>bs. data b ! p) [0..<prod_list shp]"
    using bne by (cases bs) simp_all
  also have "\<dots> = map (\<lambda>p. \<Sum>m\<leftarrow>mats. nz exact (data m ! p)) [0..<prod_list shp]"
  proof (rule map_cong[OF refl])
    fix p assume "p \<in> set [0..<prod_list shp]"
    then have p: "p < prod_list shp" by simp
    have "map (\<lambda>b. data b ! p) bs = map (\<lambda>m. nz exact (data m ! p)) mats"
      using len p by (simp add: bs_def)
    then show "(\<Sum>b\<leftarrow>bs. data b ! p) = (\<Sum>m\<leftarrow>mats. nz exact (data m ! p))"
      by (simp add: comp_def)
  qed
  finally show ?thesis
    using a sh unfolding met_def by (intro ndarray.equality) simp_all
qed




lemma set_where_keep_full:
  fixes a :: "'a::semiring_char_0 ndarray"
  assumes "n \<noteq> 0"
  shows "set_where (\<lambda>x. x = of_nat n) 1 (set_where (\<lambda>x. x \<noteq> of_nat n) 0 a)
         = a\<lparr>data := map (\<lambda>x. if x = of_nat n then 1 else 0) (data a)\<rparr>"
  using assms by (auto simp: set_where_def)

lemma extracting_common_cnx_stacked:
  fixes d :: "'a::semiring_char_0 metric_dict"
  assumes sel: "py_index d ind = Inr (key, mats)"
    and ne: "mats \<noteq> []"
    and sh: "\<forall>m\<in>set mats. shape m = shp"
    and len: "\<forall>m\<in>set mats. length (data m) = prod_list shp"
    and nd: "shp \<noteq> []"
  shows "extracting_common_cnx exact d ind =
         Inr \<lparr>shape = shp,
              data = map (\<lambda>p. if (\<Sum>m\<leftarrow>mats. nz exact (data m ! p)) = of_nat (length mats)
                               then 1 else 0) [0..<prod_list shp]\<rparr>"
proof -
  define n where "n = length mats"
  have n0: "n \<noteq> 0" "1 \<le> n" using ne by (cases mats; simp add: n_def)+
  have arr: "np_array mats = Inr \<lparr>shape = n # shp, data = concat (map data mats)\<rparr>"
    using np_array_same_shape[OF ne sh] by (simp add: n_def)
  have l: "length (concat (map data mats)) = n * prod_list shp"
    using length_concat_uniform[of "map data mats" "prod_list shp"] len by (simp add: n_def)
  have bin: "binarize_loop exact n \<lparr>shape = n # shp, data = concat (map data mats)\<rparr>
             = Inr \<lparr>shape = n # shp, data = map (nz exact) (concat (map data mats))\<rparr>"
    by (rule binarize_loop_all[OF l nd])
  have last: "add_loop exact n \<lparr>shape = n # shp, data = map (nz exact) (concat (map data mats))\<rparr> ! (n - 1)
              = \<lparr>shape = shp, data = map (\<lambda>p. \<Sum>m\<leftarrow>mats. nz exact (data m ! p)) [0..<prod_list shp]\<rparr>"
    unfolding add_loop_last[OF n0(2)] unfolding n_def by (rule acc_upto_stacked[OF len ne])
  show ?thesis
    unfolding extracting_common_cnx_def
    using n0(1)
    by (simp add: sel arr np_len_def bin last[simplified] Let_def set_where_keep_full[OF n0(1)]
          comp_def n_def[symmetric])
qed




lemma sum_list_nz:
  fixes f :: "'b \<Rightarrow> 'a::semiring_1"
  shows "(\<Sum>m\<leftarrow>ms. nz exact (f m)) = of_nat (length (filter (\<lambda>m. f m \<noteq> 0) ms))"
  by (induction ms) (simp_all add: nz_def)

lemma length_filter_full: "length (filter P xs) = length xs \<longleftrightarrow> (\<forall>x\<in>set xs. P x)"
  by (metis filter_id_conv neq_if_length_neq length_filter_less nat_less_le)

lemma sum_list_nz_full:
  fixes f :: "'b \<Rightarrow> 'a::semiring_char_0"
  shows "(\<Sum>m\<leftarrow>ms. nz exact (f m)) = of_nat (length ms) \<longleftrightarrow> (\<forall>m\<in>set ms. f m \<noteq> 0)"
  by (simp only: sum_list_nz of_nat_eq_iff length_filter_full)

lemma index2_less:
  assumes "r < R" and "c < C"
  shows "r * C + c < R * (C::nat)"
proof -
  have "r * C + c < Suc r * C" using assms(2) by simp
  also have "\<dots> \<le> R * C" using assms(1) by (intro mult_le_mono1) simp
  finally show ?thesis .
qed

lemma spec_common_mask_closed:
  fixes mats :: "'a::semiring_1 ndarray list"
  assumes ne: "mats \<noteq> []"
    and sh: "\<forall>m\<in>set mats. shape m = shp"
    and len: "\<forall>m\<in>set mats. length (data m) = prod_list shp"
  shows "spec_common_mask exact mats =
         \<lparr>shape = shp,
          data = map (\<lambda>p. if (\<Sum>m\<leftarrow>mats. nz exact (data m ! p)) = of_nat (length mats)
                           then 1 else 0) [0..<prod_list shp]\<rparr>"
proof -
  have hd: "shape (hd mats) = shp" using ne sh by simp
  have "(\<Sum>m\<leftarrow>map (binarize exact) mats. data m ! p) = (\<Sum>m\<leftarrow>mats. nz exact (data m ! p))"
    if "p < prod_list shp" for p
  proof -
    have eq: "map (\<lambda>m. data (binarize exact m) ! p) mats = map (\<lambda>m. nz exact (data m ! p)) mats"
      using len that by (simp add: binarize_def)
    have "(\<Sum>m\<leftarrow>map (binarize exact) mats. data m ! p) = sum_list (map (\<lambda>m. data (binarize exact m) ! p) mats)"
      by (simp add: comp_def)
    then show ?thesis by (simp only: eq)
  qed
  then show ?thesis
    by (simp add: spec_common_mask_def hd)
qed

section \<open>The common-connection mask and the dtype\<close>

text \<open>
  With an exact dtype of characteristic 0 (\<^verbatim>\<open>float64\<close>, \<^verbatim>\<open>int64\<close>): for a
  reference metric with a non-empty list of subject matrices of one shape \<open>(R, C)\<close>,
  \<open>extracting_common_cnx\<close> returns a mask of that shape whose cell \<open>(r, c)\<close> is 1
  exactly when the cell is non-zero in every subject's matrix, and 0 otherwise; the
  mask equals the one the specification describes (binarize, sum across subjects, keep
  the cells whose sum is the subject count).
\<close>

lemma extracting_common_cnx_exact_all_nonzero:
  fixes d :: "'a::semiring_char_0 metric_dict"
  assumes sel: "py_index d ind = Inr (key, mats)"
    and ne: "mats \<noteq> []"
    and wf: "\<forall>m\<in>set mats. shape m = [R, C] \<and> valid m"
  shows "\<exists>mask. extracting_common_cnx exact d ind = Inr mask
           \<and> mask = spec_common_mask exact mats
           \<and> shape mask = [R, C]
           \<and> (\<forall>r<R. \<forall>c<C. at2 mask r c = (if \<forall>m\<in>set mats. at2 m r c \<noteq> 0 then 1 else 0))"
proof -
  have sh: "\<forall>m\<in>set mats. shape m = [R, C]"
    and len: "\<forall>m\<in>set mats. length (data m) = prod_list [R, C]"
    using wf by (simp_all add: valid_def)
  let ?mask = "\<lparr>shape = [R, C],
          data = map (\<lambda>p. if (\<Sum>m\<leftarrow>mats. nz exact (data m ! p)) = of_nat (length mats)
                           then 1 else (0::'a)) [0..<prod_list [R, C]]\<rparr>"
  have run: "extracting_common_cnx exact d ind = Inr ?mask"
    by (rule extracting_common_cnx_stacked[OF sel ne sh len]) simp
  have spec: "spec_common_mask exact mats = ?mask"
    by (rule spec_common_mask_closed[OF ne sh len])
  have cell: "at2 ?mask r c = (if \<forall>m\<in>set mats. at2 m r c \<noteq> 0 then 1 else 0)"
    if "r < R" and "c < C" for r c
  proof -
    have p: "r * C + c < R * C" using that by (rule index2_less)
    have at: "\<forall>m\<in>set mats. at2 m r c = data m ! (r * C + c)"
      using sh by (simp add: at2_def)
    have "at2 ?mask r c = (if (\<Sum>m\<leftarrow>mats. nz exact (data m ! (r * C + c))) = of_nat (length mats)
                           then 1 else 0)"
      using p by (simp add: at2_def)
    also have "\<dots> = (if \<forall>m\<in>set mats. data m ! (r * C + c) \<noteq> 0 then 1 else 0)"
      by (simp only: sum_list_nz_full)
    finally show ?thesis using at by simp
  qed
  show ?thesis
    using run spec cell by simp
qed

text \<open>
  Claim C2 says this of every non-empty sequence of same-shape matrices. The code adds
  the binarized matrices with \<^verbatim>\<open>np.add\<close>, which stays within their dtype: on Boolean
  matrices the sum of two \<^verbatim>\<open>True\<close> is \<^verbatim>\<open>True\<close>, of value 1, never the subject count
  2, and every cell is set to 0. For the two matrices \<^verbatim>\<open>[[True, False]]\<close> the code
  returns \<^verbatim>\<open>[[False, False]]\<close>, where the first cell is non-zero for every subject
  and the mask of the specification is \<^verbatim>\<open>[[True, False]]\<close>.
\<close>

theorem extracting_common_cnx_bool_sum_saturates:
  "extracting_common_cnx np_bool bool_d 0 = Inr (matrix_of_rows [[False, False]])
   \<and> spec_common_mask np_bool [matrix_of_rows [[True, False]], matrix_of_rows [[True, False]]]
       = matrix_of_rows [[True, False]]
   \<and> at2 (matrix_of_rows [[True, False]]) 0 0 = True"
  by code_simp

section \<open>Claim about the concrete scenario\<close>

text \<open>
  Claim C1 says that on the scenario the mask extraction over \<open>fa\<close> and \<open>md\<close> yields
  the mask \<open>[[1,0],[0,0]]\<close> and that the mask is applied with no error. The code builds
  one mask per metric and never intersects them: the mask of \<open>fa\<close> (the one that would
  be applied) is \<open>[[1,0],[1,0]]\<close>, and the run stops at the count comparison.
\<close>

theorem scenario_mask_not_applied:
  "extracting_common_cnx exact scenario_d 0 \<noteq> Inr (matrix_of_rows [[1, 0], [0, 0]])
   \<and> main_mask_step exact True [2, 2] scenario_d = Inl InconsistentMaskError"
  by code_simp

text \<open>
  Claim C1, amended. On the scenario the mask of \<open>fa\<close> is \<open>[[1,0],[1,0]]\<close> (cell (1,0) is
  non-zero for both subjects), the mask of \<open>md\<close> is \<open>[[1,0],[0,0]]\<close>, their sums are 2
  and 1, and the masking step ends with the inconsistent-mask error; no matrix is masked.
\<close>

theorem scenario_masks_inconsistent:
  "main_mat_shape [''fa'', ''md''] scenario_d = Inr [2, 2]
   \<and> extracting_common_cnx exact scenario_d 0 = Inr (matrix_of_rows [[1, 0], [1, 0]])
   \<and> extracting_common_cnx exact scenario_d 1 = Inr (matrix_of_rows [[1, 0], [0, 0]])
   \<and> np_sum exact (matrix_of_rows [[1, 0], [1, 0::int]]) = 2
   \<and> np_sum exact (matrix_of_rows [[1, 0], [0, 0::int]]) = 1
   \<and> main_mask_step exact True [2, 2] scenario_d = Inl InconsistentMaskError"
  by code_simp

section \<open>The masking step of \<open>main\<close>\<close>

lemma shape_set_item_fold:
  "shape (fold (\<lambda>i m. set_item m i (g m i)) is met) = shape met"
  by (induction "is" arbitrary: met) (simp_all add: set_item_def Let_def)

lemma shape_binarize_loop: "binarize_loop dt n met = Inr met' \<Longrightarrow> shape met' = shape met"
  by (auto simp: binarize_loop_def shape_set_item_fold split: if_splits)

lemma shape_add_loop_last: "1 \<le> n \<Longrightarrow> shape (add_loop dt n met ! (n - 1)) = tl (shape met)"
  by (simp only: add_loop_last acc_upto_def foldl_np_add_shape) (simp add: get_item_def)

lemma np_array_Inr:
  assumes "np_array mats = Inr a"
  shows "shape a = (if mats = [] then [0] else length mats # shape (hd mats))"
  using assms by (auto simp: np_array_def split: list.splits if_splits)

text \<open>
  The two assignments at the end of \<open>extracting_common_cnx\<close> leave only zeros and ones
  of the dtype, whatever the dtype.
\<close>

lemma set_where_twice:
  "set (data (set_where (\<lambda>x. dt_val dt x = k) (dt_one dt)
                (set_where (\<lambda>x. dt_val dt x \<noteq> k) (dt_zero dt) a)))
   \<subseteq> {dt_zero dt, dt_one dt}"
  by (auto simp: set_where_def)

lemma extracting_common_cnx_Inr:
  assumes "extracting_common_cnx dt d ind = Inr m"
  shows "\<exists>key mats. py_index d ind = Inr (key, mats) \<and> mats \<noteq> []
           \<and> shape m = shape (hd mats) \<and> set (data m) \<subseteq> {dt_zero dt, dt_one dt}"
proof -
  from assms obtain key mats where sel: "py_index d ind = Inr (key, mats)"
    by (auto simp: extracting_common_cnx_def split: sum.splits)
  from assms sel obtain met0 where arr: "np_array mats = Inr met0"
    by (auto simp: extracting_common_cnx_def split: sum.splits)
  from assms sel arr obtain n where n: "np_len met0 = Inr n"
    by (auto simp: extracting_common_cnx_def split: sum.splits)
  from assms sel arr n obtain met where met: "binarize_loop dt n met0 = Inr met"
    by (auto simp: extracting_common_cnx_def split: sum.splits)
  from assms sel arr n met have n0: "n \<noteq> 0"
    by (auto simp: extracting_common_cnx_def Let_def split: if_splits)
  have shp: "shape met0 = (if mats = [] then [0] else length mats # shape (hd mats))"
    by (rule np_array_Inr[OF arr])
  have ne: "mats \<noteq> []"
    using n n0 shp by (auto simp: np_len_def)
  define A where "A = add_loop dt n met ! (n - 1)"
  have m: "m = set_where (\<lambda>x. dt_val dt x = of_nat n) (dt_one dt)
                 (set_where (\<lambda>x. dt_val dt x \<noteq> of_nat n) (dt_zero dt) A)"
    using assms sel arr n met n0
    by (simp add: extracting_common_cnx_def Let_def A_def)
  have "1 \<le> n" using n0 by simp
  then have "shape A = tl (shape met0)"
    unfolding A_def by (simp only: shape_add_loop_last shape_binarize_loop[OF met])
  then have "shape m = shape (hd mats)"
    using m shp ne by (simp add: set_where_def)
  moreover have "set (data m) \<subseteq> {dt_zero dt, dt_one dt}"
    unfolding m by (rule set_where_twice)
  ultimately show ?thesis using sel ne by blast
qed

lemma np_sum_count_ones:
  fixes m :: "'a::semiring_char_0 ndarray"
  assumes "set (data m) \<subseteq> {0, 1}"
  shows "np_sum exact m = of_nat (count_ones m)"
proof -
  have "set xs \<subseteq> {0, 1} \<Longrightarrow> sum_list xs = of_nat (length (filter (\<lambda>x. x = 1) xs))"
    for xs :: "'a list"
    by (induction xs) auto
  with assms show ?thesis by (simp add: np_sum_def count_ones_def)
qed

lemma dict_set_hd:
  "d \<noteq> [] \<Longrightarrow> dict_set d k v \<noteq> [] \<and> fst (hd (dict_set d k v)) = fst (hd d)"
  by (cases d) (auto simp: dict_set_def)

lemma load_metrics_hd:
  "load_metrics loader in_folder subjects ms d = Inr d' \<Longrightarrow> d \<noteq> [] \<Longrightarrow>
   d' \<noteq> [] \<and> fst (hd d') = fst (hd d)"
proof (induction ms arbitrary: d)
  case Nil
  then show ?case by simp
next
  case (Cons m ms)
  then show ?case
    by (auto split: sum.splits dest!: Cons.IH simp: dict_set_hd)
qed

lemma main_load_hd:
  assumes "main_load loader in_folder subjects metrics = Inr d" and "metrics \<noteq> []"
  shows "d \<noteq> [] \<and> fst (hd d) = hd metrics"
proof -
  from assms(2) obtain m ms where ms: "metrics = m # ms" by (cases metrics) auto
  with assms(1) obtain mats where
    "load_metrics loader in_folder subjects ms (dict_set [] m mats) = Inr d"
    by (auto simp: main_load_def split: sum.splits)
  from load_metrics_hd[OF this] show ?thesis
    by (simp add: dict_set_def ms)
qed


lemma main_mat_shape_first:
  assumes "main_mat_shape metrics d = Inr mat_shape" and "d \<noteq> []" and "fst (hd d) = hd metrics"
  shows "snd (hd d) \<noteq> [] \<and> mat_shape = shape (hd (snd (hd d)))"
proof -
  from assms(1) have ne: "metrics \<noteq> []"
    by (auto simp: main_mat_shape_def py_index_def)
  then have i: "py_index metrics 0 = Inr (hd metrics)"
    by (simp add: py_index_def hd_conv_nth)
  obtain k v d' where d: "d = (k, v) # d'" using assms(2) by (cases d) auto
  with assms(3) have g: "dict_get d (hd metrics) = Inr v"
    by (simp add: dict_get_def)
  from assms(1) i g have "v \<noteq> []"
    by (auto simp: main_mat_shape_def py_index_def)
  moreover from this assms(1) i g have "mat_shape = shape (hd v)"
    by (auto simp: main_mat_shape_def py_index_def hd_conv_nth)
  ultimately show ?thesis using d by simp
qed

text \<open>
  Claim C3. Once both masks are computed, the masking step compares only their counts of
  retained cells: different counts end the run with \<open>InconsistentMaskError\<close> (nothing is
  masked); equal counts let it go on to apply the first mask, whether or not the two
  masks are the same matrix.
\<close>

theorem main_mask_step_compares_counts:
  fixes d :: "'a::semiring_char_0 metric_dict"
  assumes load: "main_load loader in_folder subjects metrics = Inr d"
    and shp: "main_mat_shape metrics d = Inr mat_shape"
    and e1: "extracting_common_cnx exact d 0 = Inr m1"
    and e2: "extracting_common_cnx exact d 1 = Inr m2"
  shows "(count_ones m1 \<noteq> count_ones m2 \<longrightarrow>
            main_mask_step exact True mat_shape d = Inl InconsistentMaskError)
       \<and> (count_ones m1 = count_ones m2 \<longrightarrow>
            main_mask_step exact True mat_shape d = apply_binary_mask exact d m1)"
proof -
  from shp have "metrics \<noteq> []"
    by (auto simp: main_mat_shape_def py_index_def)
  from main_load_hd[OF load this] have d: "d \<noteq> []" "fst (hd d) = hd metrics" by simp_all
  from main_mat_shape_first[OF shp d]
  have ms: "mat_shape = shape (hd (snd (hd d)))" by simp
  from extracting_common_cnx_Inr[OF e1] obtain key mats where
    k1: "py_index d 0 = Inr (key, mats)" "shape m1 = shape (hd mats)" "set (data m1) \<subseteq> {0, 1}"
    by auto
  from k1(1) d(1) have "hd d = (key, mats)"
    by (simp add: py_index_def hd_conv_nth)
  with ms k1(2) have same: "shape m1 = mat_shape" by simp
  from extracting_common_cnx_Inr[OF e2] have "set (data m2) \<subseteq> {0, 1}" by auto
  then have s2: "np_sum exact m2 = of_nat (count_ones m2)" by (rule np_sum_count_ones)
  have s1: "np_sum exact m1 = of_nat (count_ones m1)" using k1(3) by (rule np_sum_count_ones)
  show ?thesis
    by (simp add: main_mask_step_def e1 e2 same s1 s2)
qed

text \<open>
  Two masks of one retained cell each, at different cells: the step applies the first.
\<close>

theorem main_mask_step_compares_counts_witness:
  "main_load (load_matrix_in_any_format skew_store) ''in'' [''s1''] [''fa'', ''md''] = Inr skew_d
   \<and> extracting_common_cnx exact skew_d 0 = Inr (matrix_of_rows [[1, 0]])
   \<and> extracting_common_cnx exact skew_d 1 = Inr (matrix_of_rows [[0, 1]])
   \<and> matrix_of_rows [[1, 0]] \<noteq> matrix_of_rows [[0, 1::int]]
   \<and> main_mask_step exact True [1, 2] skew_d
       = Inr [(''fa'', [matrix_of_rows [[3, 0]]]), (''md'', [matrix_of_rows [[0, 0]]])]"
proof -
  have load: "main_load (load_matrix_in_any_format skew_store) ''in'' [''s1''] [''fa'', ''md''] = Inr skew_d"
    by code_simp
  have shp: "main_mat_shape [''fa'', ''md''] skew_d = Inr [1, 2]"
    by code_simp
  have e1: "extracting_common_cnx exact skew_d 0 = Inr (matrix_of_rows [[1, 0]])"
    by code_simp
  have e2: "extracting_common_cnx exact skew_d 1 = Inr (matrix_of_rows [[0, 1]])"
    by code_simp
  have c: "count_ones (matrix_of_rows [[1, 0::int]]) = count_ones (matrix_of_rows [[0, 1::int]])"
    by code_simp
  have a: "apply_binary_mask exact skew_d (matrix_of_rows [[1, 0]])
           = Inr [(''fa'', [matrix_of_rows [[3, 0]]]), (''md'', [matrix_of_rows [[0, 0]]])]"
    by code_simp
  have ne: "matrix_of_rows [[1, 0]] \<noteq> matrix_of_rows [[0, 1::int]]"
    by code_simp
  from main_mask_step_compares_counts[OF load shp e1 e2] c a
  have "main_mask_step exact True [1, 2] skew_d
        = Inr [(''fa'', [matrix_of_rows [[3, 0]]]), (''md'', [matrix_of_rows [[0, 0]]])]"
    by simp
  with load e1 e2 ne show ?thesis by simp
qed

section \<open>All-zero matrices\<close>

text \<open>
  Claim C8 says that an all-zero matrix of some metric for one subject makes the mask
  all-zero. The mask is built from the one metric that \<open>ind\<close> selects (in \<open>main\<close>, the
  first and the second): with the all-zero matrix in a third metric, both masks keep
  cells and the masking step succeeds.
\<close>

theorem zero_matrix_of_other_metric:
  "list_ex (\<lambda>(key, mats). list_ex all_zero mats) zero_rd_d
   \<and> extracting_common_cnx exact zero_rd_d 0 = Inr (matrix_of_rows [[1, 0], [0, 1]])
   \<and> extracting_common_cnx exact zero_rd_d 1 = Inr (matrix_of_rows [[1, 0], [0, 1]])
   \<and> \<not> all_zero (matrix_of_rows [[1, 0], [0, 1::int]])
   \<and> main_mask_step exact True [2, 2] zero_rd_d = Inr zero_rd_d"
  by code_simp

text \<open>
  Claim C8, amended. When the reference metric (the entry that \<open>ind\<close> selects) has an
  all-zero matrix for at least one subject, the mask is the all-zero matrix. (The
  arrays have at least one axis; for 0-dimensional arrays the first loop raises.)
\<close>

theorem zero_reference_matrix_zero_mask:
  fixes d :: "'a::semiring_char_0 metric_dict"
  assumes sel: "py_index d ind = Inr (key, mats)"
    and wf: "\<forall>m\<in>set mats. shape m = shp \<and> valid m"
    and nd: "shp \<noteq> []"
    and z: "m0 \<in> set mats" "all_zero m0"
  shows "extracting_common_cnx exact d ind = Inr \<lparr>shape = shp, data = replicate (prod_list shp) 0\<rparr>"
proof -
  have ne: "mats \<noteq> []" using z(1) by auto
  have sh: "\<forall>m\<in>set mats. shape m = shp"
    and len: "\<forall>m\<in>set mats. length (data m) = prod_list shp"
    using wf by (simp_all add: valid_def)
  have zero: "data m0 ! p = 0" if "p < prod_list shp" for p
    using z len that by (simp add: all_zero_def list_all_length)
  have "(\<Sum>m\<leftarrow>mats. nz exact (data m ! p)) \<noteq> of_nat (length mats)" if "p < prod_list shp" for p
    using sum_list_nz_full[of "\<lambda>m. data m ! p" mats] zero[OF that] z(1) by auto
  then have "map (\<lambda>p. if (\<Sum>m\<leftarrow>mats. nz exact (data m ! p)) = of_nat (length mats) then 1 else (0::'a))
               [0..<prod_list shp] = replicate (prod_list shp) 0"
    by (intro nth_equalityI) simp_all
  with extracting_common_cnx_stacked[OF sel ne sh len nd] show ?thesis by simp
qed

theorem zero_reference_matrix_zero_mask_witness:
  "extracting_common_cnx exact zero_rd_d 2 = Inr (matrix_of_rows [[0, 0], [0, 0]])"
proof -
  let ?m = "matrix_of_rows [[0, 0], [0, 0::int]]"
  have "py_index zero_rd_d 2 = Inr (''rd'', [?m])" by code_simp
  moreover have "\<forall>m\<in>set [?m]. shape m = [2, 2] \<and> valid m" by (simp add: matrix_of_rows_def valid_def)
  moreover have "[2, 2] \<noteq> ([]::nat list)" by simp
  moreover have "?m \<in> set [?m]" by simp
  moreover have "all_zero ?m" by code_simp
  ultimately have "extracting_common_cnx exact zero_rd_d 2 = Inr \<lparr>shape = [2, 2], data = replicate (prod_list [2, 2]) 0\<rparr>"
    by (rule zero_reference_matrix_zero_mask)
  then show ?thesis by (simp add: matrix_of_rows_def numeral_eq_Suc)
qed

section \<open>Elementwise product and zero restoration\<close>

lemma broadcast_shapes_same: "broadcast_shapes xs xs = Some xs"
  by (induction xs) simp_all

lemma length_block: "Suc k * sz \<le> length xs \<Longrightarrow> length (block sz xs k) = sz"
  by (simp add: block_def)

lemma concat_blocks:
  "length xs = n * sz \<Longrightarrow> concat (map (block sz xs) [0..<n]) = xs"
proof (induction n arbitrary: xs rule: nat.induct)
  case zero
  then show ?case by simp
next
  case (Suc n)
  have l: "length (take (n * sz) xs) = n * sz" using Suc.prems by simp
  have b: "block sz xs k = block sz (take (n * sz) xs) k" if "k < n" for k
  proof -
    have "Suc k * sz \<le> n * sz" using that by (intro mult_le_mono1) simp
    then show ?thesis by (simp add: block_def take_drop min_absorb1 add.commute)
  qed
  have "concat (map (block sz xs) [0..<n]) = concat (map (block sz (take (n * sz) xs)) [0..<n])"
    using b by (auto intro!: arg_cong[where f=concat])
  also have "\<dots> = take (n * sz) xs" by (rule Suc.IH[OF l])
  finally have "concat (map (block sz xs) [0..<Suc n]) = take (n * sz) xs @ block sz xs n"
    by simp
  also have "block sz xs n = drop (n * sz) xs"
    using Suc.prems by (simp add: block_def)
  finally show ?case by simp
qed

lemma broadcast_data_same:
  "length xs = prod_list shp \<Longrightarrow> broadcast_data shp shp xs = xs"
proof (induction shp arbitrary: xs)
  case Nil
  then show ?case by simp
next
  case (Cons n shp)
  have "broadcast_data shp shp (block (prod_list shp) xs i) = block (prod_list shp) xs i"
    if "i < n" for i
  proof -
    have "Suc i * prod_list shp \<le> n * prod_list shp" using that by (intro mult_le_mono1) simp
    then have "length (block (prod_list shp) xs i) = prod_list shp"
      using Cons.prems by (intro length_block) simp
    then show ?thesis by (rule Cons.IH)
  qed
  then have m: "map (\<lambda>i. broadcast_data shp shp (block (prod_list shp) xs i)) [0..<n]
             = map (block (prod_list shp) xs) [0..<n]"
    by simp
  have "broadcast_data (n # shp) (n # shp) xs
        = concat (map (\<lambda>i. broadcast_data shp shp (block (prod_list shp) xs i)) [0..<n])"
    by simp
  also have "\<dots> = xs"
    unfolding m using Cons.prems by (intro concat_blocks) simp
  finally show ?case .
qed

lemma np_multiply_same_shape:
  assumes "shape a = shape b" and "valid a" and "valid b"
  shows "np_multiply exact a b = Inr \<lparr>shape = shape a, data = map2 (*) (data a) (data b)\<rparr>"
  using assms
  by (simp add: np_multiply_def broadcast_shapes_same broadcast_to_def broadcast_data_same valid_def)


text \<open>
  Claim C6. For arrays of one shape, restoring the zeros of \<open>orig\<close> a second time
  changes nothing: \<open>restore_zero_values orig (restore_zero_values orig new)\<close> is
  \<open>restore_zero_values orig new\<close>, and neither call raises.
\<close>

theorem restore_zero_values_idempotent:
  fixes orig new :: "'a::semiring_1 ndarray"
  assumes sh: "shape orig = shape new" and vo: "valid orig" and vn: "valid new"
  shows "\<exists>r. restore_zero_values exact orig new = Inr r \<and> restore_zero_values exact orig r = Inr r"
proof -
  define msk where "msk = set_where (\<lambda>x. dt_val exact x \<noteq> 0) (dt_one exact) orig"
  define r where "r = \<lparr>shape = shape new, data = map2 (*) (data new) (data msk)\<rparr>"
  have m: "shape msk = shape new" "valid msk" "data msk = map (nz exact) (data orig)"
    using sh vo by (simp_all add: msk_def set_where_nz valid_def)
  have first: "restore_zero_values exact orig new = Inr r"
    unfolding restore_zero_values_def msk_def[symmetric] r_def
    using m vn by (intro np_multiply_same_shape) simp_all
  have vr: "valid r" "shape r = shape msk"
    using m vn by (simp_all add: r_def valid_def)
  have "restore_zero_values exact orig r = Inr \<lparr>shape = shape r, data = map2 (*) (data r) (data msk)\<rparr>"
    unfolding restore_zero_values_def msk_def[symmetric]
    using vr m by (intro np_multiply_same_shape) simp_all
  also have "map2 (*) (data r) (data msk) = data r"
  proof (rule nth_equalityI)
    show "length (map2 (*) (data r) (data msk)) = length (data r)"
      by (simp add: r_def)
  next
    fix i assume "i < length (map2 (*) (data r) (data msk))"
    then have i: "i < length (data new)" "i < length (data orig)"
      by (simp_all add: r_def m(3))
    then show "map2 (*) (data r) (data msk) ! i = data r ! i"
      by (simp add: r_def m(3) nz_def)
  qed
  finally have "restore_zero_values exact orig r = Inr r" by simp
  with first show ?thesis by blast
qed

theorem restore_zero_values_idempotent_witness:
  "restore_zero_values exact (matrix_of_rows [[1, 0], [0, 4]]) (matrix_of_rows [[7, 8], [9, 10::int]])
     = Inr (matrix_of_rows [[7, 0], [0, 10]])
   \<and> restore_zero_values exact (matrix_of_rows [[1, 0], [0, 4]]) (matrix_of_rows [[7, 0], [0, 10::int]])
     = Inr (matrix_of_rows [[7, 0], [0, 10]])"
proof -
  let ?o = "matrix_of_rows [[1, 0], [0, 4::int]]" and ?n = "matrix_of_rows [[7, 8], [9, 10::int]]"
  have "shape ?o = shape ?n" "valid ?o" "valid ?n"
    by (simp_all add: matrix_of_rows_def valid_def)
  from restore_zero_values_idempotent[OF this] obtain r where
    r: "restore_zero_values exact ?o ?n = Inr r" "restore_zero_values exact ?o r = Inr r" by blast
  have "restore_zero_values exact ?o ?n = Inr (matrix_of_rows [[7, 0], [0, 10]])"
    by code_simp
  with r show ?thesis by simp
qed

section \<open>Loading\<close>

text \<open>
  Claim C9 says that loading fails when a matrix is missing and also when the loaded
  matrices do not share one shape. Lines 177 to 183 compare no shapes: a dictionary with
  matrices of different shapes is produced, and here even the masking step accepts it
  (the two masks have one retained cell each, and the 1 by 1 mask broadcasts).
\<close>

theorem main_load_keeps_mismatched_shapes:
  "main_load (load_matrix_in_any_format ragged_store) ''in'' [''s1''] [''fa'', ''md'']
     = Inr [(''fa'', [matrix_of_rows [[3]]]), (''md'', [matrix_of_rows [[0, 4]]])]
   \<and> shape (matrix_of_rows [[3::int]]) \<noteq> shape (matrix_of_rows [[0, 4::int]])
   \<and> main_mat_shape [''fa'', ''md'']
        [(''fa'', [matrix_of_rows [[3::int]]]), (''md'', [matrix_of_rows [[0, 4]]])] = Inr [1, 1]
   \<and> main_mask_step exact True [1, 1]
        [(''fa'', [matrix_of_rows [[3::int]]]), (''md'', [matrix_of_rows [[0, 4]]])]
     = Inr [(''fa'', [matrix_of_rows [[3]]]), (''md'', [matrix_of_rows [[0, 4]]])]"
  by code_simp

lemma map_result_ok:
  "\<not> list_ex (\<lambda>x. isl (f x)) xs \<Longrightarrow> map_result f xs = Inr (map (\<lambda>x. projr (f x)) xs)"
  by (induction xs) (auto split: sum.splits)

lemma map_result_error:
  "list_ex (\<lambda>x. isl (f x)) xs \<Longrightarrow> \<exists>e x. x \<in> set xs \<and> f x = Inl e \<and> map_result f xs = Inl e"
proof (induction xs)
  case Nil
  then show ?case by simp
next
  case (Cons x xs)
  show ?case
  proof (cases "f x")
    case (Inl e)
    then show ?thesis by auto
  next
    case (Inr y)
    with Cons.prems have "list_ex (\<lambda>x. isl (f x)) xs" by simp
    from Cons.IH[OF this] obtain e z where "z \<in> set xs" "f z = Inl e" "map_result f xs = Inl e"
      by blast
    with Inr show ?thesis by auto
  qed
qed

lemma dict_set_keyed:
  "dict_set (map (\<lambda>m. (m, F m)) ks) m (F m)
   = map (\<lambda>m. (m, F m)) (if m \<in> set ks then ks else ks @ [m])"
  by (auto simp: dict_set_def comp_def)

lemma load_metrics_ok:
  assumes "\<not> list_ex (\<lambda>m. list_ex (\<lambda>a. isl (loader (matrix_path in_folder a m))) subjects) ms"
  shows "load_metrics loader in_folder subjects ms
           (map (\<lambda>m. (m, map (\<lambda>a. projr (loader (matrix_path in_folder a m))) subjects)) ks)
         = Inr (map (\<lambda>m. (m, map (\<lambda>a. projr (loader (matrix_path in_folder a m))) subjects))
                  (key_order ks ms))"
  using assms
proof (induction ms arbitrary: ks)
  case Nil
  then show ?case by simp
next
  case (Cons m ms)
  let ?F = "\<lambda>m. map (\<lambda>a. projr (loader (matrix_path in_folder a m))) subjects"
  from Cons.prems
  have here: "\<not> list_ex (\<lambda>a. isl (loader (matrix_path in_folder a m))) subjects"
    and rest: "\<not> list_ex (\<lambda>m. list_ex (\<lambda>a. isl (loader (matrix_path in_folder a m))) subjects) ms"
    by simp_all
  have mr: "map_result (\<lambda>a. loader (matrix_path in_folder a m)) subjects = Inr (?F m)"
    using here by (rule map_result_ok)
  have "load_metrics loader in_folder subjects (m # ms) (map (\<lambda>m. (m, ?F m)) ks)
        = load_metrics loader in_folder subjects ms
            (map (\<lambda>m. (m, ?F m)) (if m \<in> set ks then ks else ks @ [m]))"
    by (simp only: load_metrics.simps mr sum.case dict_set_keyed[of ?F])
  also have "\<dots> = Inr (map (\<lambda>m. (m, ?F m)) (key_order (if m \<in> set ks then ks else ks @ [m]) ms))"
    by (rule Cons.IH[OF rest])
  finally show ?case by (simp only: key_order.simps)
qed

lemma load_metrics_error:
  assumes "list_ex (\<lambda>m. list_ex (\<lambda>a. isl (loader (matrix_path in_folder a m))) subjects) ms"
  shows "\<exists>e m a. m \<in> set ms \<and> a \<in> set subjects \<and> loader (matrix_path in_folder a m) = Inl e
           \<and> load_metrics loader in_folder subjects ms d = Inl e"
  using assms
proof (induction ms arbitrary: d)
  case Nil
  then show ?case by simp
next
  case (Cons m ms)
  show ?case
  proof (cases "list_ex (\<lambda>a. isl (loader (matrix_path in_folder a m))) subjects")
    case True
    from map_result_error[OF this] obtain e a where
      "a \<in> set subjects" "loader (matrix_path in_folder a m) = Inl e"
      "map_result (\<lambda>a. loader (matrix_path in_folder a m)) subjects = Inl e"
      by blast
    then show ?thesis by (intro exI[of _ e] exI[of _ m] exI[of _ a]) simp
  next
    case False
    with Cons.prems
    have rest: "list_ex (\<lambda>m. list_ex (\<lambda>a. isl (loader (matrix_path in_folder a m))) subjects) ms"
      by simp
    from map_result_ok[OF False] obtain mats where
      mr: "map_result (\<lambda>a. loader (matrix_path in_folder a m)) subjects = Inr mats" by blast
    from Cons.IH[OF rest, of "dict_set d m mats"] obtain e m' a where
      "m' \<in> set ms" "a \<in> set subjects" "loader (matrix_path in_folder a m') = Inl e"
      "load_metrics loader in_folder subjects ms (dict_set d m mats) = Inl e"
      by blast
    then show ?thesis using mr by (intro exI[of _ e] exI[of _ m'] exI[of _ a]) simp
  qed
qed

text \<open>
  Claim C9, amended. Whatever \<^verbatim>\<open>load_matrix_in_any_format\<close> does with a path (the
  parameter \<open>loader\<close>): loading fails exactly when the loader fails for some (subject,
  metric) pair, with an error of the loader; otherwise it returns, for every metric in
  insertion order, the subjects' matrices in subject order. Shapes are not compared.
\<close>

theorem main_load_result:
  "if list_ex (\<lambda>m. list_ex (\<lambda>a. isl (loader (matrix_path in_folder a m))) subjects) metrics
   then \<exists>e m a. m \<in> set metrics \<and> a \<in> set subjects
          \<and> loader (matrix_path in_folder a m) = Inl e
          \<and> main_load loader in_folder subjects metrics = Inl e
   else main_load loader in_folder subjects metrics
        = Inr (map (\<lambda>m. (m, map (\<lambda>a. projr (loader (matrix_path in_folder a m))) subjects))
                 (key_order [] metrics))"
proof (cases "list_ex (\<lambda>m. list_ex (\<lambda>a. isl (loader (matrix_path in_folder a m))) subjects) metrics")
  case True
  from load_metrics_error[OF this, of "[]"] show ?thesis
    using True by (simp only: main_load_def if_True)
next
  case False
  from load_metrics_ok[OF this, of "[]"] show ?thesis
    using False by (simp add: main_load_def)
qed

lemma key_order_distinct: "distinct (ks @ ms) \<Longrightarrow> key_order ks ms = ks @ ms"
  by (induction ms arbitrary: ks) auto

text \<open>
  With the specification's store as loader: a metric with no stored matrix gives
  \<open>MissingMatrixError\<close>, and matrices of different shapes are loaded.
\<close>

theorem main_load_result_witness:
  "main_load (load_matrix_in_any_format ragged_store) ''in'' [''s1''] [''fa'', ''rd'']
     = Inl MissingMatrixError
   \<and> main_load (load_matrix_in_any_format ragged_store) ''in'' [''s1''] [''md'', ''fa'']
     = Inr [(''md'', [matrix_of_rows [[0, 4]]]), (''fa'', [matrix_of_rows [[3]]])]"
proof -
  let ?L = "load_matrix_in_any_format ragged_store"
  have all: "?L p = Inl e \<Longrightarrow> e = MissingMatrixError" for p e
    by (auto simp: load_matrix_in_any_format_def split: option.splits)
  have "list_ex (\<lambda>m. list_ex (\<lambda>a. isl (?L (matrix_path ''in'' a m))) [''s1'']) [''fa'', ''rd'']"
    by code_simp
  with main_load_result[of ?L "''in''" "[''s1'']" "[''fa'', ''rd'']"]
  obtain e m a where "?L (matrix_path ''in'' a m) = Inl e"
    "main_load ?L ''in'' [''s1''] [''fa'', ''rd''] = Inl e"
    by (simp only: if_True) blast
  with all have 1: "main_load ?L ''in'' [''s1''] [''fa'', ''rd''] = Inl MissingMatrixError"
    by blast
  have "\<not> list_ex (\<lambda>m. list_ex (\<lambda>a. isl (?L (matrix_path ''in'' a m))) [''s1'']) [''md'', ''fa'']"
    by code_simp
  with main_load_result[of ?L "''in''" "[''s1'']" "[''md'', ''fa'']"]
  have "main_load ?L ''in'' [''s1''] [''md'', ''fa'']
        = Inr (map (\<lambda>m. (m, map (\<lambda>a. projr (?L (matrix_path ''in'' a m))) [''s1'']))
                 (key_order [] [''md'', ''fa'']))"
    by (simp only: if_False)
  also have "\<dots> = Inr [(''md'', [matrix_of_rows [[0, 4]]]), (''fa'', [matrix_of_rows [[3]]])]"
    by code_simp
  finally show ?thesis using 1 by simp
qed

section \<open>The round trip through the feature table\<close>

text \<open>
  Claim C5 (round trip). \<open>creating_pca_input\<close> lays every subject's matrix out column
  by column (the axis roll transposes it before flattening), while line 270 reshapes
  the columns back row by row. With the identity as decomposition, one metric and one
  subject, the matrix \<open>[[1,2],[3,4]]\<close> comes back as \<open>[[1,3],[2,4]]\<close>: the round trip
  returns the transpose, not the original.
\<close>

theorem identity_round_trip_transposed:
  "identity_round_trip exact [(''fa'', [matrix_of_rows [[1, 2], [3, 4::int]]])] 1 [2, 2]
     = Inr \<lparr>shape = [1, 1, 2, 2], data = [1, 3, 2, 4]\<rparr>
   \<and> component_matrix \<lparr>shape = [1, 1, 2, 2], data = [1, 3, 2, 4::int]\<rparr> 0 0
     = matrix_of_rows [[1, 3], [2, 4]]
   \<and> matrix_of_rows [[1, 3], [2, 4]] \<noteq> matrix_of_rows [[1, 2], [3, 4::int]]"
  by code_simp

section \<open>The components that are saved\<close>




section \<open>The feature table\<close>


lemma nth_concat_uniform:
  assumes "\<forall>x\<in>set xss. length x = sz" and "i < length xss" and "p < sz"
  shows "concat xss ! (i * sz + p) = xss ! i ! p"
proof -
  have "block sz (concat xss) i = xss ! i"
    using assms(1,2) by (rule block_concat)
  moreover have "i * sz + p < length (concat xss)"
  proof -
    have "i * sz + p < Suc i * sz" using assms(3) by simp
    also have "\<dots> \<le> length xss * sz" using assms(2) by (intro mult_le_mono1) simp
    finally show ?thesis using length_concat_uniform[OF assms(1)] by simp
  qed
  ultimately show ?thesis
    using assms(3) by (auto simp: block_def dest: arg_cong[where f="\<lambda>l. l ! p"])
qed

lemma block_one: "n < length xs \<Longrightarrow> block (Suc 0) xs n = [xs ! n]"
  by (simp add: block_def take_Suc_conv_app_nth)

lemma map_result_all:
  "\<forall>x\<in>set xs. f x = Inr (g x) \<Longrightarrow> map_result f xs = Inr (map g xs)"
  by (induction xs) simp_all

lemma length_column_major: "length (column_major R C mats) = length mats * (C * R)"
  unfolding column_major_def
  by (subst length_concat_uniform[where sz="C * R"])
     (auto simp: length_concat_uniform[where sz=R])

lemma nth_column_major:
  assumes "i < length mats" and "c < C" and "r < R"
  shows "column_major R C mats ! ((i * C + c) * R + r) = data (mats ! i) ! (r * C + c)"
proof -
  let ?g = "\<lambda>m. concat (map (\<lambda>c. map (\<lambda>r. data m ! (r * C + c)) [0..<R]) [0..<C])"
  have lg: "length (?g m) = C * R" for m
    by (subst length_concat_uniform[where sz=R]) auto
  have p: "c * R + r < C * R" using assms(2,3) by (rule index2_less)
  have e: "(i * C + c) * R + r = i * (C * R) + (c * R + r)"
    by (simp add: algebra_simps)
  have "column_major R C mats ! ((i * C + c) * R + r)
             = concat (map ?g mats) ! (i * (C * R) + (c * R + r))"
    unfolding column_major_def e ..
  also have "\<dots> = map ?g mats ! i ! (c * R + r)"
    using assms(1) lg p by (intro nth_concat_uniform) auto
  also have "\<dots> = ?g (mats ! i) ! (c * R + r)"
    using assms(1) by simp
  also have "\<dots> = map (\<lambda>c. map (\<lambda>r. data (mats ! i) ! (r * C + c)) [0..<R]) [0..<C] ! c ! r"
    using assms(2,3) by (intro nth_concat_uniform) auto
  also have "\<dots> = data (mats ! i) ! (r * C + c)"
    using assms(2,3) by simp
  finally show ?thesis .
qed



lemma rollaxis_stacked_data:
  assumes len: "\<forall>m\<in>set mats. length (data m) = R * C"
  shows "concat (map (\<lambda>i. concat (map (\<lambda>k. concat (map (\<lambda>j.
            block (prod_list []) (concat (map data mats)) ((i * R + j) * C + k))
          [0..<R])) [0..<C])) [0..<length mats])
         = column_major R C mats"
proof -
  let ?X = "concat (map data mats)"
  have lX: "length ?X = length mats * (R * C)"
    using length_concat_uniform[of "map data mats" "R * C"] len by simp
  have cell: "block (prod_list []) ?X ((i * R + j) * C + k) = [data (mats ! i) ! (j * C + k)]"
    if "i < length mats" "j < R" "k < C" for i j k
  proof -
    have p: "j * C + k < R * C" using that(2,3) by (rule index2_less)
    have e: "(i * R + j) * C + k = i * (R * C) + (j * C + k)" by (simp add: algebra_simps)
    have "i * (R * C) + (j * C + k) < Suc i * (R * C)" using p by simp
    also have "\<dots> \<le> length mats * (R * C)" using that(1) by (intro mult_le_mono1) simp
    finally have "(i * R + j) * C + k < length ?X" using lX e by simp
    then have "block (prod_list []) ?X ((i * R + j) * C + k) = [?X ! ((i * R + j) * C + k)]"
      using block_one[of "(i * R + j) * C + k" ?X] by simp
    also have "?X ! ((i * R + j) * C + k) = map data mats ! i ! (j * C + k)"
      unfolding e using len that(1) p by (intro nth_concat_uniform) auto
    finally show ?thesis using that(1) by simp
  qed
  have inner: "concat (map (\<lambda>j. block (prod_list []) ?X ((i * R + j) * C + k)) [0..<R])
               = map (\<lambda>r. data (mats ! i) ! (r * C + k)) [0..<R]"
    if "i < length mats" "k < C" for i k
  proof -
    have m: "map (\<lambda>j. block (prod_list []) ?X ((i * R + j) * C + k)) [0..<R]
          = map (\<lambda>j. [data (mats ! i) ! (j * C + k)]) [0..<R]"
      using cell[OF that(1) _ that(2)] by simp
    show ?thesis by (simp only: m concat_map_singleton)
  qed
  have mid: "concat (map (\<lambda>k. concat (map (\<lambda>j. block (prod_list []) ?X ((i * R + j) * C + k))
                 [0..<R])) [0..<C])
             = concat (map (\<lambda>c. map (\<lambda>r. data (mats ! i) ! (r * C + c)) [0..<R]) [0..<C])"
    if "i < length mats" for i
  proof -
    have m: "map (\<lambda>k. concat (map (\<lambda>j. block (prod_list []) ?X ((i * R + j) * C + k))
                 [0..<R])) [0..<C]
          = map (\<lambda>c. map (\<lambda>r. data (mats ! i) ! (r * C + c)) [0..<R]) [0..<C]"
      using inner[OF that] by simp
    show ?thesis by (simp only: m)
  qed
  define G where "G = (\<lambda>m::'a ndarray. concat (map (\<lambda>c. map (\<lambda>r. data m ! (r * C + c)) [0..<R]) [0..<C]))"
  have "map (\<lambda>i. concat (map (\<lambda>k. concat (map (\<lambda>j.
            block (prod_list []) ?X ((i * R + j) * C + k)) [0..<R])) [0..<C])) [0..<length mats]
        = map (\<lambda>i. G (mats ! i)) [0..<length mats]"
    using mid by (simp add: G_def)
  also have "\<dots> = map G (map ((!) mats) [0..<length mats])"
    by simp
  also have "\<dots> = map G mats"
    by (simp only: map_nth)
  finally show ?thesis by (simp only: column_major_def G_def)
qed



lemma pca_column_result:
  assumes ne: "mats \<noteq> []"
    and wf: "\<forall>m\<in>set mats. shape m = [R, C] \<and> valid m"
  shows "pca_column mats
         = Inr \<lparr>shape = [R * C * length mats, 1], data = column_major R C mats\<rparr>"
proof -
  have sh: "\<forall>m\<in>set mats. shape m = [R, C]"
    and len: "\<forall>m\<in>set mats. length (data m) = R * C"
    using wf by (simp_all add: valid_def)
  have arr: "np_array mats = Inr \<lparr>shape = length mats # [R, C], data = concat (map data mats)\<rparr>"
    using ne sh by (rule np_array_same_shape)
  have roll: "np_rollaxis_1_3 \<lparr>shape = length mats # [R, C], data = concat (map data mats)\<rparr>
              = Inr \<lparr>shape = [length mats, C, R], data = column_major R C mats\<rparr>"
    by (simp add: np_rollaxis_1_3_def rollaxis_stacked_data[OF len, simplified])
  have "np_reshape \<lparr>shape = [length mats, C, R], data = column_major R C mats\<rparr>
          [prod_list [C, R] * length mats, 1]
        = Inr \<lparr>shape = [prod_list [C, R] * length mats, 1], data = column_major R C mats\<rparr>"
    by (simp add: np_reshape_def length_column_major)
  then show ?thesis
    by (simp add: pca_column_def arr roll Let_def mult.commute)
qed

lemma np_hstack_columns:
  assumes ne: "cols \<noteq> []"
    and col: "\<forall>b\<in>set cols. shape b = [N, 1] \<and> length (data b) = N"
  shows "np_hstack cols
         = Inr \<lparr>shape = [N, length cols],
                data = concat (map (\<lambda>n. map (\<lambda>b. data b ! n) cols) [0..<N])\<rparr>"
proof -
  obtain a rest where c: "cols = a # rest" using ne by (cases cols) auto
  have a: "shape a ! 0 = N" using col c by simp
  have all: "list_all (\<lambda>b. length (shape b) = 2 \<and> shape b ! 0 = shape a ! 0) cols"
    using col a by (simp add: list_all_iff)
  have w: "sum_list (map (\<lambda>b. shape b ! 1) cols) = length cols"
  proof -
    have m: "map (\<lambda>b. shape b ! 1) cols = map (\<lambda>b. 1) cols" using col by simp
    show ?thesis unfolding m by (simp add: sum_list_triv)
  qed
  have row: "concat (map (\<lambda>b. block (shape b ! 1) (data b) n) cols) = map (\<lambda>b. data b ! n) cols"
    if "n < N" for n
  proof -
    have m: "map (\<lambda>b. block (shape b ! 1) (data b) n) cols = map (\<lambda>b. [data b ! n]) cols"
      using col that by (simp add: block_one)
    show ?thesis by (simp only: m concat_map_singleton)
  qed
  have d: "map (\<lambda>n. concat (map (\<lambda>b. block (shape b ! 1) (data b) n) cols)) [0..<N]
           = map (\<lambda>n. map (\<lambda>b. data b ! n) cols) [0..<N]"
    using row by simp
  have "np_hstack cols
        = Inr \<lparr>shape = [shape a ! 0, sum_list (map (\<lambda>b. shape b ! 1) cols)],
              data = concat (map (\<lambda>n. concat (map (\<lambda>b. block (shape b ! 1) (data b) n) cols))
                       [0..<shape a ! 0])\<rparr>"
    using all by (simp add: np_hstack_def c)
  then show ?thesis by (simp only: a w d)
qed



lemma index3_less:
  assumes "i < S" and "c < C" and "r < R"
  shows "(i * C + c) * R + r < R * C * (S::nat)"
proof -
  have "i * C + c < S * C" using assms(1,2) by (rule index2_less)
  then have "(i * C + c) * R + r < (S * C) * R" using assms(3) by (rule index2_less)
  then show ?thesis by (simp add: mult.commute mult.left_commute)
qed

text \<open>
  Claim C4. For a dictionary of \<open>M\<close> metrics (at least one), each with the matrices of
  \<open>S\<close> subjects (at least one), all of shape \<open>(R, C)\<close>, \<open>creating_pca_input\<close> returns
  a table of \<open>R * C * S\<close> rows and \<open>M\<close> columns. Column \<open>j\<close> holds the data of the
  \<open>j\<close>-th metric in insertion order: the cell \<open>(r, c)\<close> of subject \<open>i\<close> is in row
  \<open>(i * C + c) * R + r\<close>.
\<close>

theorem creating_pca_input_table:
  assumes ne: "d \<noteq> []" and subj: "0 < S"
    and wf: "\<forall>(key, mats)\<in>set d. length mats = S \<and> (\<forall>m\<in>set mats. shape m = [R, C] \<and> valid m)"
  shows "\<exists>d' out. creating_pca_input d = Inr (d', out)
           \<and> shape out = [R * C * S, length d] \<and> valid out
           \<and> map fst d' = map fst d
           \<and> (\<forall>j<length d. \<forall>i<S. \<forall>r<R. \<forall>c<C.
                 at2 out ((i * C + c) * R + r) j = at2 (snd (d ! j) ! i) r c)"
proof -
  define N where "N = R * C * S"
  define col where "col = (\<lambda>(key::string, mats::'a ndarray list).
      \<lparr>shape = [N, 1], data = column_major R C mats\<rparr>)"
  define cols where "cols = map col d"
  define out where "out = \<lparr>shape = [N, length d],
      data = concat (map (\<lambda>n. map (\<lambda>b. data b ! n) cols) [0..<N])\<rparr>"
  have each: "\<forall>x\<in>set d. (\<lambda>(a, mats). pca_column mats) x = Inr (col x)"
  proof
    fix x assume x: "x \<in> set d"
    obtain key mats where km: "x = (key, mats)" by (cases x)
    with wf x have l: "length mats = S" and w: "\<forall>m\<in>set mats. shape m = [R, C] \<and> valid m"
      by auto
    from l subj have "mats \<noteq> []" by auto
    from pca_column_result[OF this w] l show "(\<lambda>(a, mats). pca_column mats) x = Inr (col x)"
      by (simp add: km col_def N_def)
  qed
  have cols_ok: "map_result (\<lambda>(a, mats). pca_column mats) d = Inr cols"
    unfolding cols_def using each by (rule map_result_all)
  have lc: "length cols = length d" by (simp add: cols_def)
  have colshape: "\<forall>b\<in>set cols. shape b = [N, 1] \<and> length (data b) = N"
  proof
    fix b assume "b \<in> set cols"
    then obtain key mats where "(key, mats) \<in> set d" and b: "b = col (key, mats)"
      by (auto simp: cols_def)
    with wf have "length mats = S" by auto
    then show "shape b = [N, 1] \<and> length (data b) = N"
      by (simp add: b col_def length_column_major N_def mult.commute mult.left_commute)
  qed
  have "cols \<noteq> []" using ne by (simp add: cols_def)
  from np_hstack_columns[OF this colshape] have hs: "np_hstack cols = Inr out"
    by (simp add: out_def lc)
  have run: "creating_pca_input d = Inr (zip (map fst d) cols, out)"
    by (simp add: creating_pca_input_def cols_ok hs)
  have keys: "map fst (zip (map fst d) cols) = map fst d"
    by (simp add: lc)
  have rows: "\<forall>x\<in>set (map (\<lambda>n. map (\<lambda>b. data b ! n) cols) [0..<N]). length x = length d"
    by (auto simp: lc)
  have vout: "valid out"
    using length_concat_uniform[OF rows] by (simp add: valid_def out_def)
  have cell: "at2 out ((i * C + c) * R + r) j = at2 (snd (d ! j) ! i) r c"
    if j: "j < length d" and i: "i < S" and r: "r < R" and c: "c < C" for j i r c
  proof -
    let ?n = "(i * C + c) * R + r"
    obtain key mats where km: "d ! j = (key, mats)" by (cases "d ! j")
    with j have mem: "(key, mats) \<in> set d" by (metis nth_mem)
    with wf have l: "length mats = S" and w: "\<forall>m\<in>set mats. shape m = [R, C] \<and> valid m"
      by auto
    have n: "?n < N" unfolding N_def using i c r by (rule index3_less)
    have "at2 out ?n j = concat (map (\<lambda>n. map (\<lambda>b. data b ! n) cols) [0..<N]) ! (?n * length d + j)"
      by (simp add: at2_def out_def)
    also have "\<dots> = map (\<lambda>n. map (\<lambda>b. data b ! n) cols) [0..<N] ! ?n ! j"
      using rows n j by (intro nth_concat_uniform) simp_all
    also have "\<dots> = data (cols ! j) ! ?n"
      using n j by (simp add: lc)
    also have "cols ! j = col (key, mats)"
      using j km by (simp add: cols_def)
    also have "data (col (key, mats)) ! ?n = data (mats ! i) ! (r * C + c)"
      using i l c r by (simp add: col_def nth_column_major)
    also have "\<dots> = at2 (mats ! i) r c"
      using w i l by (simp add: at2_def)
    finally show ?thesis by (simp add: km)
  qed
  show ?thesis
    using run keys vout cell by (intro exI[of _ "zip (map fst d) cols"] exI[of _ out])
      (simp add: out_def N_def)
qed

text \<open>The table of the scenario: 8 rows, 2 columns.\<close>

theorem creating_pca_input_table_witness:
  "creating_pca_input scenario_d
     = Inr ([(''fa'', \<lparr>shape = [8, 1], data = [1, 2, 0, 3, 5, 6, 0, 0]\<rparr>),
             (''md'', \<lparr>shape = [8, 1], data = [1, 0, 0, 4, 1, 7, 0, 0]\<rparr>)],
            \<lparr>shape = [8, 2], data = [1, 1, 2, 0, 0, 0, 3, 4, 5, 1, 6, 7, 0, 0, 0, 0]\<rparr>)"
proof -
  have "scenario_d \<noteq> []" by (simp add: scenario_d_def)
  moreover have "0 < (2::nat)" by simp
  moreover have "\<forall>(key, mats)\<in>set scenario_d.
      length mats = 2 \<and> (\<forall>m\<in>set mats. shape m = [2, 2] \<and> valid m)"
    by (simp add: scenario_d_def matrix_of_rows_def valid_def)
  ultimately obtain d' out where
    "creating_pca_input scenario_d = Inr (d', out)" "shape out = [2 * 2 * 2, length scenario_d]"
    using creating_pca_input_table[of scenario_d 2 2 2] by blast
  moreover have "creating_pca_input scenario_d
     = Inr ([(''fa'', \<lparr>shape = [8, 1], data = [1, 2, 0, 3, 5, 6, 0, 0]\<rparr>),
             (''md'', \<lparr>shape = [8, 1], data = [1, 0, 0, 4, 1, 7, 0, 0]\<rparr>)],
            \<lparr>shape = [8, 2], data = [1, 1, 2, 0, 0, 0, 3, 4, 5, 1, 6, 7, 0, 0, 0, 0]\<rparr>)"
    by code_simp
  ultimately show ?thesis by simp
qed

section \<open>The mask extraction leaves its input unchanged\<close>

lemma binarize_loop_h_at:
  "m < length h \<Longrightarrow>
   fold (\<lambda>i h. h[m := set_item (h ! m) i (set_where P v (get_item (h ! m) i))]) is h
   = h[m := fold (\<lambda>i a. set_item a i (set_where P v (get_item a i))) is (h ! m)]"
  by (induction "is" arbitrary: h) simp_all

lemma binarize_loop_h_eq:
  "m < length h \<Longrightarrow>
   binarize_loop_h dt n m h
   = (case binarize_loop dt n (h ! m) of Inl e \<Rightarrow> Inl e | Inr a \<Rightarrow> Inr (h[m := a]))"
  unfolding binarize_loop_h_def binarize_loop_def by (simp add: binarize_loop_h_at)

lemma add_loop_eq: "1 \<le> n \<Longrightarrow> add_loop dt n met = map (acc_upto dt met) [1..<Suc n]"
  by (simp only: add_loop_def add_loop_fold snd_conv)

lemma acc_upto_Suc: "1 \<le> k \<Longrightarrow> acc_upto dt met (Suc k) = np_add dt (acc_upto dt met k) (get_item met k)"
  by (simp add: acc_upto_def)

lemma add_loop_h_fold:
  assumes m: "m < length h" and k: "1 \<le> k"
  shows "fold (add_step dt m) [1..<k] (length h, [length h], h @ [get_item (h ! m) 0])
         = (length h + k - 1, [length h..<length h + k], h @ map (acc_upto dt (h ! m)) [1..<Suc k])"
  using k
proof (induction k)
  case 0
  then show ?case by simp
next
  case (Suc k)
  show ?case
  proof (cases "k = 0")
    case True
    then show ?thesis by (simp add: acc_upto_def)
  next
    case False
    then have k1: "1 \<le> k" by simp
    let ?s0 = "(length h, [length h], h @ [get_item (h ! m) 0])"
    let ?H = "h @ map (acc_upto dt (h ! m)) [1..<Suc k]"
    have lH: "length ?H = length h + k" using k1 by simp
    have atm: "?H ! m = h ! m" using m by (simp add: nth_append)
    have "?H ! (length h + k - 1) = map (acc_upto dt (h ! m)) [1..<Suc k] ! (k - 1)"
      using k1 by (simp add: nth_append)
    also have "\<dots> = acc_upto dt (h ! m) ([1..<Suc k] ! (k - 1))"
      using k1 by (intro nth_map) simp
    also have "[1..<Suc k] ! (k - 1) = k"
      using k1 by (simp del: upt_Suc)
    finally have ato: "?H ! (length h + k - 1) = acc_upto dt (h ! m) k" .
    have step: "alloc (np_add dt (?H ! (length h + k - 1)) (get_item (?H ! m) k)) ?H
                = (length h + k, ?H @ [acc_upto dt (h ! m) (Suc k)])"
      unfolding ato atm alloc_def lH acc_upto_Suc[OF k1] ..
    have up: "[1..<Suc k] = [1..<k] @ [k]" using k1 by simp
    have up2: "[length h..<length h + k] @ [length h + k] = [length h..<length h + Suc k]"
      by simp
    have up3: "?H @ [acc_upto dt (h ! m) (Suc k)] = h @ map (acc_upto dt (h ! m)) [1..<Suc (Suc k)]"
      by simp
    have "fold (add_step dt m) [1..<Suc k] ?s0 = add_step dt m k (fold (add_step dt m) [1..<k] ?s0)"
      by (simp only: up fold_append comp_apply fold_simps id_apply)
    also have "\<dots> = add_step dt m k (length h + k - 1, [length h..<length h + k], ?H)"
      by (simp only: Suc.IH[OF k1])
    also have "\<dots> = (length h + k, [length h..<length h + k] @ [length h + k],
                       ?H @ [acc_upto dt (h ! m) (Suc k)])"
      unfolding add_step_def by (simp only: prod.case step Let_def)
    also have "\<dots> = (length h + Suc k - 1, [length h..<length h + Suc k],
                       h @ map (acc_upto dt (h ! m)) [1..<Suc (Suc k)])"
      unfolding up2 up3 by simp
    finally show ?thesis .
  qed
qed

lemma add_loop_h_eq:
  assumes "m < length h" and "1 \<le> n"
  shows "add_loop_h dt n m h = ([length h..<length h + n], h @ add_loop dt n (h ! m))"
proof -
  have a: "alloc (get_item (h ! m) 0) h = (length h, h @ [get_item (h ! m) 0])"
    by (simp add: alloc_def)
  show ?thesis
    unfolding add_loop_h_def a
    by (simp only: prod.case Let_def add_loop_h_fold[OF assms] add_loop_eq[OF assms(2)])
qed



lemma py_index_map: "py_index (map f xs) i = (case py_index xs i of Inl e \<Rightarrow> Inl e | Inr x \<Rightarrow> Inr (f x))"
  by (auto simp: py_index_def)

lemma np_len_np_array: "np_array xs = Inr a \<Longrightarrow> np_len a = Inr (length xs)"
  by (auto simp: np_array_def np_len_def split: list.splits if_splits)

lemma extracting_common_cnx_h_run:
  "extracting_common_cnx_h dt h d ind =
     (case py_index d ind of
        Inl e \<Rightarrow> (h, Inl e)
      | Inr (key, refs) \<Rightarrow>
          (case np_array (map ((!) h) refs) of
             Inl e \<Rightarrow> (h, Inl e)
           | Inr met0 \<Rightarrow>
               (case binarize_loop dt (length refs) met0 of
                  Inl e \<Rightarrow> (h @ [met0], Inl e)
                | Inr met \<Rightarrow>
                    let n = length refs
                    in if n = 0 then (h @ [met], Inl IndexError)
                       else
                         let mask = add_loop dt n met;
                             mask_f = mask ! (n - 1);
                             mask_f = set_where (\<lambda>x. dt_val dt x \<noteq> of_nat n) (dt_zero dt) mask_f;
                             mask_f = set_where (\<lambda>x. dt_val dt x = of_nat n) (dt_one dt) mask_f
                         in (h @ [met] @ (mask[n - 1 := mask_f]), Inr (length h + n)))))"
proof (cases "py_index d ind")
  case (Inl e)
  then show ?thesis by (simp add: extracting_common_cnx_h_def)
next
  case (Inr kr)
  obtain key refs where kr: "kr = (key, refs)" by (cases kr)
  show ?thesis
  proof (cases "np_array (map ((!) h) refs)")
    case (Inl e)
    then show ?thesis by (simp add: extracting_common_cnx_h_def Inr kr)
  next
    case met0: (Inr met0)
    define n where "n = length refs"
    have len: "np_len met0 = Inr n"
      using np_len_np_array[OF met0] by (simp add: n_def)
    have a: "alloc met0 h = (length h, h @ [met0])" by (simp add: alloc_def)
    have h2: "binarize_loop_h dt n (length h) (h @ [met0])
              = (case binarize_loop dt n met0 of Inl e \<Rightarrow> Inl e | Inr a \<Rightarrow> Inr (h @ [a]))"
      by (simp add: binarize_loop_h_eq split: sum.splits)
    show ?thesis
    proof (cases "binarize_loop dt n met0")
      case (Inl e)
      then show ?thesis
        unfolding extracting_common_cnx_h_def
        by (simp only: Inr kr met0 a len sum.case prod.case Let_def h2 n_def[symmetric])
    next
      case bin: (Inr met)
      have lhs: "extracting_common_cnx_h dt h d ind =
            (if n = 0 then (h @ [met], Inl IndexError)
             else
               let (mask, h3) = add_loop_h dt n (length h) (h @ [met]);
                   mask_f = mask ! (n - 1);
                   h4 = h3[mask_f := set_where (\<lambda>x. dt_val dt x \<noteq> of_nat n) (dt_zero dt) (h3 ! mask_f)];
                   h5 = h4[mask_f := set_where (\<lambda>x. dt_val dt x = of_nat n) (dt_one dt) (h4 ! mask_f)]
               in (h5, Inr mask_f))"
        unfolding extracting_common_cnx_h_def
        by (simp only: Inr kr met0 a len sum.case prod.case Let_def h2 bin)
      have rhs: "(case py_index d ind of
          Inl e \<Rightarrow> (h, Inl e)
        | Inr (key, refs) \<Rightarrow>
            (case np_array (map ((!) h) refs) of
               Inl e \<Rightarrow> (h, Inl e)
             | Inr met0 \<Rightarrow>
                 (case binarize_loop dt (length refs) met0 of
                    Inl e \<Rightarrow> (h @ [met0], Inl e)
                  | Inr met \<Rightarrow>
                      let n = length refs
                      in if n = 0 then (h @ [met], Inl IndexError)
                         else
                           let mask = add_loop dt n met;
                               mask_f = mask ! (n - 1);
                               mask_f = set_where (\<lambda>x. dt_val dt x \<noteq> of_nat n) (dt_zero dt) mask_f;
                               mask_f = set_where (\<lambda>x. dt_val dt x = of_nat n) (dt_one dt) mask_f
                           in (h @ [met] @ (mask[n - 1 := mask_f]), Inr (length h + n)))))
          = (if n = 0 then (h @ [met], Inl IndexError)
             else (h @ [met] @ (add_loop dt n met)[n - 1 := set_where (\<lambda>x. dt_val dt x = of_nat n) (dt_one dt)
                      (set_where (\<lambda>x. dt_val dt x \<noteq> of_nat n) (dt_zero dt) (add_loop dt n met ! (n - 1)))],
                   Inr (length h + n)))"
        by (simp only: Inr kr met0 sum.case prod.case Let_def n_def[symmetric] bin)
      show ?thesis
      proof (cases "n = 0")
        case True
        then show ?thesis unfolding lhs rhs by simp
      next
        case False
        then have n1: "1 \<le> n" by simp
        have lt: "length h < length (h @ [met])" by simp
        define mask where "mask = add_loop dt n met"
        have nth: "(h @ [met]) ! length h = met" by simp
        have al: "add_loop_h dt n (length h) (h @ [met])
                  = ([length (h @ [met])..<length (h @ [met]) + n], (h @ [met]) @ mask)"
          using add_loop_h_eq[OF lt n1, of dt] unfolding nth mask_def .
        have lm: "length mask = n" using n1 by (simp add: mask_def add_loop_eq)
        have idx: "[length (h @ [met])..<length (h @ [met]) + n] ! (n - 1) = length h + n"
          using n1 nth_upt[of "length (h @ [met])" "n - 1" "length (h @ [met]) + n"] by simp
        have at: "((h @ [met]) @ ms) ! (length h + n) = ms ! (n - 1)" if "length ms = n" for ms
          using n1 that by (simp add: nth_append)
        have upd: "((h @ [met]) @ ms)[length h + n := x] = (h @ [met]) @ ms[n - 1 := x]"
          if "length ms = n" for x ms
          using n1 that by (cases n) (simp_all add: list_update_append)
        have "extracting_common_cnx_h dt h d ind =
              (let mask_f = length h + n;
                   h3 = (h @ [met]) @ mask;
                   h4 = h3[mask_f := set_where (\<lambda>x. dt_val dt x \<noteq> of_nat n) (dt_zero dt) (h3 ! mask_f)];
                   h5 = h4[mask_f := set_where (\<lambda>x. dt_val dt x = of_nat n) (dt_one dt) (h4 ! mask_f)]
               in (h5, Inr mask_f))"
          unfolding lhs using False
          by (simp only: al prod.case Let_def idx if_False)
        also have "\<dots> = ((h @ [met]) @ mask[n - 1 := set_where (\<lambda>x. dt_val dt x = of_nat n) (dt_one dt)
                      (set_where (\<lambda>x. dt_val dt x \<noteq> of_nat n) (dt_zero dt) (mask ! (n - 1)))], Inr (length h + n))"
        proof -
          define X where "X = set_where (\<lambda>x. dt_val dt x \<noteq> of_nat n) (dt_zero dt) (mask ! (n - 1))"
          have l2: "length (mask[n - 1 := X]) = n" using lm by simp
          have x: "mask[n - 1 := X] ! (n - 1) = X" using n1 lm by simp
          show ?thesis
            unfolding Let_def at[OF lm] X_def[symmetric] upd[OF lm] at[OF l2] x upd[OF l2]
            by simp
        qed
        finally show ?thesis
          unfolding rhs mask_def using False by simp
      qed
    qed
  qed
qed

lemma extracting_common_cnx_h_refines:
  assumes run: "extracting_common_cnx_h dt h d ind = (h', res)"
  shows "(\<exists>ext. h' = h @ ext)
       \<and> (case res of
            Inl e \<Rightarrow> extracting_common_cnx dt (deref_dict h d) ind = Inl e
          | Inr r \<Rightarrow> r < length h' \<and> extracting_common_cnx dt (deref_dict h d) ind = Inr (h' ! r))"
proof (cases "py_index d ind")
  case (Inl e)
  with run have "h' = h" "res = Inl e"
    by (simp_all add: extracting_common_cnx_h_run)
  then show ?thesis
    using Inl by (simp add: extracting_common_cnx_def deref_dict_def py_index_map)
next
  case (Inr kr)
  obtain key refs where kr: "kr = (key, refs)" by (cases kr)
  have sel: "py_index (deref_dict h d) ind = Inr (key, map ((!) h) refs)"
    by (simp add: deref_dict_def py_index_map Inr kr)
  show ?thesis
  proof (cases "np_array (map ((!) h) refs)")
    case (Inl e)
    with run Inr kr have "h' = h" "res = Inl e"
      by (simp_all add: extracting_common_cnx_h_run)
    then show ?thesis
      using Inl sel by (simp add: extracting_common_cnx_def)
  next
    case met0: (Inr met0)
    define n where "n = length refs"
    have len: "np_len met0 = Inr n"
      using np_len_np_array[OF met0] by (simp add: n_def)
    show ?thesis
    proof (cases "binarize_loop dt n met0")
      case (Inl e)
      with run Inr kr met0 have "h' = h @ [met0]" "res = Inl e"
        by (simp_all add: extracting_common_cnx_h_run n_def)
      then show ?thesis
        using sel met0 len Inl by (simp add: extracting_common_cnx_def)
    next
      case bin: (Inr met)
      show ?thesis
      proof (cases "n = 0")
        case True
        with run Inr kr met0 bin have "h' = h @ [met]" "res = Inl IndexError"
          by (simp_all add: extracting_common_cnx_h_run Let_def n_def)
        then show ?thesis
          using True sel met0 len bin by (simp add: extracting_common_cnx_def)
      next
        case False
        define fin where "fin = set_where (\<lambda>x. dt_val dt x = of_nat n) (dt_one dt)
            (set_where (\<lambda>x. dt_val dt x \<noteq> of_nat n) (dt_zero dt) (add_loop dt n met ! (n - 1)))"
        have lm: "length (add_loop dt n met) = n"
          using False by (simp add: add_loop_eq)
        from run Inr kr met0 bin False
        have h': "h' = h @ [met] @ (add_loop dt n met)[n - 1 := fin]"
          and res: "res = Inr (length h + n)"
          by (simp_all add: extracting_common_cnx_h_run Let_def n_def fin_def)
        have "h' ! (length h + n) = (add_loop dt n met)[n - 1 := fin] ! (n - 1)"
          using False lm by (cases n) (simp_all add: h' nth_append)
        also have "\<dots> = fin" using False lm by simp
        finally have at: "h' ! (length h + n) = fin" .
        have lt: "length h + n < length h'" using lm False by (simp add: h')
        have pure: "extracting_common_cnx dt (deref_dict h d) ind = Inr fin"
          using False by (simp add: extracting_common_cnx_def sel met0 len bin Let_def fin_def)
        show ?thesis
          using h' res at lt pure by simp
      qed
    qed
  qed
qed

text \<open>
  Claim C10. Whatever the call does (return a mask or raise), every array that was in the
  store before the call is unchanged after it, so every matrix of every metric of the
  input dictionary is unchanged; the call works on the copy it allocates. When it
  returns, the mask is the one of the value-level function and all its entries are the
  0 or the 1 of the dtype. This holds for every dtype.
\<close>

theorem extracting_common_cnx_h_frame:
  assumes run: "extracting_common_cnx_h dt h d ind = (h', res)"
    and refs: "\<forall>(key, refs)\<in>set d. \<forall>r\<in>set refs. r < length h"
  shows "(\<forall>a<length h. h' ! a = h ! a)
       \<and> deref_dict h' d = deref_dict h d
       \<and> (\<forall>r. res = Inr r \<longrightarrow>
             r < length h' \<and> extracting_common_cnx dt (deref_dict h d) ind = Inr (h' ! r)
             \<and> set (data (h' ! r)) \<subseteq> {dt_zero dt, dt_one dt})"
proof -
  from extracting_common_cnx_h_refines[OF run] obtain ext where ext: "h' = h @ ext"
    and ref: "case res of
            Inl e \<Rightarrow> extracting_common_cnx dt (deref_dict h d) ind = Inl e
          | Inr r \<Rightarrow> r < length h' \<and> extracting_common_cnx dt (deref_dict h d) ind = Inr (h' ! r)"
    by blast
  have old: "\<forall>a<length h. h' ! a = h ! a"
    by (simp add: ext nth_append)
  have "map ((!) h') rs = map ((!) h) rs" if "(key, rs) \<in> set d" for key rs
    using refs that old by auto
  then have same: "deref_dict h' d = deref_dict h d"
    by (auto simp: deref_dict_def)
  have "r < length h' \<and> extracting_common_cnx dt (deref_dict h d) ind = Inr (h' ! r)
        \<and> set (data (h' ! r)) \<subseteq> {dt_zero dt, dt_one dt}" if "res = Inr r" for r
  proof -
    from ref that have r: "r < length h'"
      "extracting_common_cnx dt (deref_dict h d) ind = Inr (h' ! r)" by simp_all
    from extracting_common_cnx_Inr[OF r(2)]
    have "set (data (h' ! r)) \<subseteq> {dt_zero dt, dt_one dt}" by blast
    with r show ?thesis by simp
  qed
  with old same show ?thesis by blast
qed

text \<open>The call on the scenario: three arrays are allocated, the four inputs stay.\<close>

theorem extracting_common_cnx_h_frame_witness:
  "extracting_common_cnx_h exact ex_heap ex_refs 0
     = (ex_heap @ [\<lparr>shape = [2, 2, 2], data = [1, 0, 1, 1, 1, 0, 1, 0]\<rparr>,
                   \<lparr>shape = [2, 2], data = [1, 0, 1, 1]\<rparr>,
                   \<lparr>shape = [2, 2], data = [1, 0, 1, 0]\<rparr>], Inr 6)
   \<and> deref_dict (ex_heap @ [\<lparr>shape = [2, 2, 2], data = [1, 0, 1, 1, 1, 0, 1, 0]\<rparr>,
                   \<lparr>shape = [2, 2], data = [1, 0, 1, 1]\<rparr>,
                   \<lparr>shape = [2, 2], data = [1, 0, 1, 0]\<rparr>]) ex_refs = scenario_d
   \<and> set (data ((ex_heap @ [\<lparr>shape = [2, 2, 2], data = [1, 0, 1, 1, 1, 0, 1, 0]\<rparr>,
                   \<lparr>shape = [2, 2], data = [1, 0, 1, 1]\<rparr>,
                   \<lparr>shape = [2, 2], data = [1, 0, 1, 0]\<rparr>]) ! 6)) \<subseteq> {0, 1}"
proof -
  let ?h' = "ex_heap @ [\<lparr>shape = [2, 2, 2], data = [1, 0, 1, 1, 1, 0, 1, 0]\<rparr>,
                   \<lparr>shape = [2, 2], data = [1, 0, 1, 1]\<rparr>,
                   \<lparr>shape = [2, 2], data = [1, 0, 1, 0::int]\<rparr>]"
  have run: "extracting_common_cnx_h exact ex_heap ex_refs 0 = (?h', Inr 6)"
    by code_simp
  have refs: "\<forall>(key, refs)\<in>set ex_refs. \<forall>r\<in>set refs. r < length ex_heap"
    by (simp add: ex_refs_def ex_heap_def)
  have d: "deref_dict ex_heap ex_refs = scenario_d"
    by code_simp
  from extracting_common_cnx_h_frame[OF run refs]
  have "deref_dict ?h' ex_refs = deref_dict ex_heap ex_refs"
    and "set (data (?h' ! 6)) \<subseteq> {dt_zero exact, dt_one exact}"
    by blast+
  with run d show ?thesis by simp
qed

end
